theory Spec2Isabelle
  imports Main
begin

section \<open>Strings, parameter maps and the library primitives\<close>

text \<open>
  Go strings and byte slices are byte sequences: both are \<open>string\<close> here. A
  \<open>map[string]string\<close> is a partial function; indexing a Go map with an absent key gives
  the zero value, the empty string (\<open>mapIndex\<close>). Go leaves the order of a \<open>range\<close>
  over a map unspecified, so every such loop of the source takes the order in which
  the runtime visits the keys as an explicit list.
\<close>

type_synonym params = "string \<rightharpoonup> string"

definition mapIndex :: "params \<Rightarrow> string \<Rightarrow> string" where
  "mapIndex p k = (case p k of None \<Rightarrow> [] | Some v \<Rightarrow> v)"

text \<open>\<open>association.go:17-20\<close> and \<open>part_001:11\<close>.\<close>

definition hmacSHA1 :: string where
  "hmacSHA1 = ''HMAC-SHA1''"

definition hmacSHA256 :: string where
  "hmacSHA256 = ''HMAC-SHA256''"

definition Namespace :: string where
  "Namespace = ''http://specs.openid.net/auth/2.0''"

text \<open>
  \<open>strings.Split(s, sep)\<close> and \<open>bytes.Split\<close> with a one-byte separator: all the
  segments between separators; the empty input gives one empty segment.
\<close>

fun Split :: "char \<Rightarrow> string \<Rightarrow> string list" where
  "Split c [] = [[]]"
| "Split c (x # xs) =
     (if x = c then [] # Split c xs
      else (case Split c xs of [] \<Rightarrow> [[x]] | s # ss \<Rightarrow> (x # s) # ss))"

text \<open>
  \<open>strings.SplitN(s, sep, 2)\<close> and \<open>bytes.SplitN\<close> with a one-byte separator: the
  text before the first separator and the rest, or the input alone when it holds no
  separator.
\<close>

fun SplitN2 :: "char \<Rightarrow> string \<Rightarrow> string list" where
  "SplitN2 c [] = [[]]"
| "SplitN2 c (x # xs) =
     (if x = c then [[], xs]
      else (case SplitN2 c xs of [s, r] \<Rightarrow> [x # s, r] | _ \<Rightarrow> [x # xs]))"

text \<open>\<open>strings.Join(xs, sep)\<close>.\<close>

fun Join :: "string list \<Rightarrow> string \<Rightarrow> string" where
  "Join [] sep = []"
| "Join [x] sep = x"
| "Join (x # y # ys) sep = x @ sep @ Join (y # ys) sep"

text \<open>The decimal digits of \<open>fmt.Sprintf("%d", i)\<close> for a counter that starts at 0.\<close>

fun Itoa :: "nat \<Rightarrow> string" where
  "Itoa n = (if n < 10 then [''0123456789'' ! n]
             else Itoa (n div 10) @ [''0123456789'' ! (n mod 10)])"

declare Itoa.simps [simp del]

text \<open>
  Every error value the package creates or passes on. Go compares the sentinels
  \<open>ErrDuplicateAssociation\<close> and \<open>ErrUnauthenticated\<close> by identity; equality of
  constructors is the same test.
\<close>

datatype error =
    ErrDuplicateAssociation
  | ErrUnauthenticated
  | UnsupportedAssociationType string
  | CannotStoreAssociation
  | unsupportedSessionTypeError string
  | InvalidKeyValueLine string
  | UnknownNs string
  | UnknownMode string
  | NoReturnTo
  | PrefixNotAllowed string
  | PrefixMultipleNamespaces string
  | NamespaceMultiplePrefixes string
  | RandReadError
  | ShortWrite
  | OtherError string

datatype hashAlg = SHA1 | SHA256

text \<open>
  The functions of the Go standard library that the package calls and whose code is not
  part of it: they are parameters of the model. \<open>hmac_Sum alg key msg\<close> is the HMAC of
  all the bytes written to \<open>hmac.New(alg, key)\<close>.
\<close>

record lib =
  hmac_Sum :: "hashAlg \<Rightarrow> string \<Rightarrow> string \<Rightarrow> string"
  base64_URLEncoding :: "string \<Rightarrow> string"
  ascii85_Encode :: "string \<Rightarrow> string"
  strconv_Quote :: "string \<Rightarrow> string"
  url_Parse_ok :: "string \<Rightarrow> bool"
  time_Format_RFC3339 :: "int \<Rightarrow> string"

section \<open>Key-value encoding (\<open>part_001:31-56\<close>)\<close>

text \<open>
  An \<open>io.Writer\<close>: the bytes written so far and the room left (\<open>None\<close>: a writer that
  never fails, as a hash or a buffer). A write that does not fit writes what fits and
  reports an error.
\<close>

record writer =
  written :: string
  room :: "nat option"

definition Write :: "writer \<Rightarrow> string \<Rightarrow> writer \<times> error option" where
  "Write w s =
     (case room w of
        None \<Rightarrow> (w\<lparr>written := written w @ s\<rparr>, None)
      | Some n \<Rightarrow>
          if length s \<le> n
          then (w\<lparr>written := written w @ s, room := Some (n - length s)\<rparr>, None)
          else (w\<lparr>written := written w @ take n s, room := Some 0\<rparr>, Some ShortWrite))"

definition WriteKeyValuePair :: "writer \<Rightarrow> string \<Rightarrow> string \<Rightarrow> writer \<times> error option" where
  "WriteKeyValuePair w key val = Write w (key @ '':'' @ val @ ''\<newline>'')"

text \<open>\<open>EncodeKeyValue w p\<close>, the keys of \<open>p\<close> visited in the order \<open>ks\<close>.\<close>

fun EncodeKeyValue :: "writer \<Rightarrow> params \<Rightarrow> string list \<Rightarrow> writer \<times> error option" where
  "EncodeKeyValue w p [] = (w, None)"
| "EncodeKeyValue w p (k # ks) =
     (case WriteKeyValuePair w k (mapIndex p k) of
        (w', Some err) \<Rightarrow> (w', Some err)
      | (w', None) \<Rightarrow> EncodeKeyValue w' p ks)"

text \<open>The loop of \<open>ParseKeyValue\<close> over the segments, and the function.\<close>

fun ParseKeyValue_loop :: "params \<Rightarrow> string list \<Rightarrow> error + params" where
  "ParseKeyValue_loop p [] = Inr p"
| "ParseKeyValue_loop p (b # bs) =
     (case SplitN2 (CHR '':'') b of
        [k, v] \<Rightarrow> ParseKeyValue_loop (p(k \<mapsto> v)) bs
      | _ \<Rightarrow> Inl (InvalidKeyValueLine b))"

definition ParseKeyValue :: "string \<Rightarrow> error + params" where
  "ParseKeyValue body = ParseKeyValue_loop Map.empty (Split (CHR ''\<newline>'') body)"

section \<open>Associations and signing (\<open>association.go:24-56\<close>)\<close>

record Association =
  Endpoint :: string
  Handle :: string
  Secret :: string
  Type :: string
  Expires :: int

text \<open>A \<open>hash.Hash\<close> made by \<open>hmac.New\<close>: the algorithm, the key and the bytes written.\<close>

record hmac =
  h_alg :: hashAlg
  h_key :: string
  h_w :: writer

definition hmac_New :: "hashAlg \<Rightarrow> string \<Rightarrow> hmac" where
  "hmac_New alg k = \<lparr>h_alg = alg, h_key = k, h_w = \<lparr>written = [], room = None\<rparr>\<rparr>"

definition hash_Sum :: "lib \<Rightarrow> hmac \<Rightarrow> string" where
  "hash_Sum L h = hmac_Sum L (h_alg h) (h_key h) (written (h_w h))"

text \<open>The body of the loop of \<open>sign\<close>: the error of the write is dropped, as in the source.\<close>

definition sign_write :: "params \<Rightarrow> hmac \<Rightarrow> string \<Rightarrow> hmac" where
  "sign_write p h k = h\<lparr>h_w := fst (WriteKeyValuePair (h_w h) k (mapIndex p k))\<rparr>"

definition sign :: "lib \<Rightarrow> Association \<Rightarrow> params \<Rightarrow> string list \<Rightarrow> error + string" where
  "sign L a p signed =
     (if Type a = hmacSHA1
      then Inr (base64_URLEncoding L (hash_Sum L (foldl (sign_write p) (hmac_New SHA1 (Secret a)) signed)))
      else if Type a = hmacSHA256
      then Inr (base64_URLEncoding L (hash_Sum L (foldl (sign_write p) (hmac_New SHA256 (Secret a)) signed)))
      else Inl (UnsupportedAssociationType (Type a)))"


section \<open>The world a request runs in\<close>

text \<open>
  A response written to the \<open>http.ResponseWriter\<close>: a direct response with its status and
  fields (the body is \<open>EncodeKeyValue\<close> of the fields), or a 303 redirect to
  \<open>return_to\<close> carrying the fields (\<open>EncodeHTTP\<close>).
\<close>

datatype response = Direct nat params | Redirect string params

type_synonym mstore = "string \<rightharpoonup> (string \<rightharpoonup> Association)"

text \<open>
  The state outside the handler: the map of \<open>DefaultAssociationStore\<close>, the state of
  the pluggable collaborators, the bytes \<open>crypto/rand\<close> will deliver (a read fails when
  fewer are left than asked for), the readings of \<open>time.Now()\<close> in nanoseconds
  (the \<open>k\<close>-th call reads \<open>clock k\<close>), and the responses written so far.
\<close>

record 's world =
  dflt :: mstore
  plug :: 's
  entropy :: string
  clock :: "nat \<Rightarrow> int"
  ticks :: nat
  responses :: "response list"

definition rand_Read :: "nat \<Rightarrow> 's world \<Rightarrow> (error + string) \<times> 's world" where
  "rand_Read n w =
     (if length (entropy w) < n then (Inl RandReadError, w)
      else (Inr (take n (entropy w)), w\<lparr>entropy := drop n (entropy w)\<rparr>))"

definition time_Now :: "'s world \<Rightarrow> int \<times> 's world" where
  "time_Now w = (clock w (ticks w), w\<lparr>ticks := Suc (ticks w)\<rparr>)"

definition Minute :: int where
  "Minute = 60000000000"

section \<open>The association store (\<open>association.go:58-140\<close>)\<close>

text \<open>
  The interface \<open>AssociationStore\<close> of a pluggable store, over the state \<open>'s\<close> the
  store keeps: each method may fail and may change that state (\<open>Find\<close> is called
  nowhere in the package and is left out).
\<close>

record 's AssociationStore =
  Add :: "Association \<Rightarrow> 's \<Rightarrow> error option \<times> 's"
  Get :: "string \<Rightarrow> string \<Rightarrow> 's \<Rightarrow> (error + Association option) \<times> 's"
  Delete :: "string \<Rightarrow> string \<Rightarrow> 's \<Rightarrow> error option \<times> 's"

text \<open>
  \<open>MemoryAssociationStore\<close>: the two-level map. An endpoint that is not a key of the
  outer map is the \<open>nil\<close> inner map of the source.
\<close>

definition MemoryAssociationStore_Get :: "mstore \<Rightarrow> string \<Rightarrow> string \<Rightarrow> error + Association option" where
  "MemoryAssociationStore_Get m endpoint handle =
     (case m endpoint of
        None \<Rightarrow> Inr None
      | Some hm \<Rightarrow> (case hm handle of None \<Rightarrow> Inr None | Some a \<Rightarrow> Inr (Some a)))"

definition MemoryAssociationStore_Add :: "mstore \<Rightarrow> Association \<Rightarrow> error option \<times> mstore" where
  "MemoryAssociationStore_Add m a =
     (case MemoryAssociationStore_Get m (Endpoint a) (Handle a) of
        Inl err \<Rightarrow> (Some err, m)
      | Inr (Some ass) \<Rightarrow> (Some ErrDuplicateAssociation, m)
      | Inr None \<Rightarrow>
          (let hm = (case m (Endpoint a) of None \<Rightarrow> Map.empty | Some hm \<Rightarrow> hm)
           in (None, m(Endpoint a \<mapsto> hm(Handle a \<mapsto> a)))))"

definition MemoryAssociationStore_Delete :: "mstore \<Rightarrow> string \<Rightarrow> string \<Rightarrow> error option \<times> mstore" where
  "MemoryAssociationStore_Delete m endpoint handle =
     (case MemoryAssociationStore_Get m endpoint handle of
        Inl err \<Rightarrow> (Some err, m)
      | Inr None \<Rightarrow> (None, m)
      | Inr (Some a) \<Rightarrow>
          (case m endpoint of
             None \<Rightarrow> (None, m)
           | Some hm \<Rightarrow> (None, m(endpoint \<mapsto> hm(handle := None)))))"

text \<open>
  What \<open>Add\<close> keeps true of the map: every association is stored under its own
  endpoint and handle.
\<close>

definition keyed :: "mstore \<Rightarrow> bool" where
  "keyed m \<longleftrightarrow> (\<forall>e hm h a. m e = Some hm \<and> hm h = Some a \<longrightarrow> Endpoint a = e \<and> Handle a = h)"

text \<open>
  The variable \<open>store\<close> of the source, after
  \<open>if store == nil { store = DefaultAssociationStore }\<close>: \<open>None\<close> is the default
  store, a \<open>MemoryAssociationStore\<close> whose map is the field \<open>dflt\<close> of the world; a
  pluggable store keeps its state in the field \<open>plug\<close>.
\<close>

definition store_Add :: "'s AssociationStore option \<Rightarrow> Association \<Rightarrow> 's world \<Rightarrow> error option \<times> 's world" where
  "store_Add store a w =
     (case store of
        None \<Rightarrow> (case MemoryAssociationStore_Add (dflt w) a of (r, m) \<Rightarrow> (r, w\<lparr>dflt := m\<rparr>))
      | Some S \<Rightarrow> (case Add S a (plug w) of (r, s) \<Rightarrow> (r, w\<lparr>plug := s\<rparr>)))"

definition store_Get ::
  "'s AssociationStore option \<Rightarrow> string \<Rightarrow> string \<Rightarrow> 's world \<Rightarrow> (error + Association option) \<times> 's world" where
  "store_Get store endpoint handle w =
     (case store of
        None \<Rightarrow> (MemoryAssociationStore_Get (dflt w) endpoint handle, w)
      | Some S \<Rightarrow> (case Get S endpoint handle (plug w) of (r, s) \<Rightarrow> (r, w\<lparr>plug := s\<rparr>)))"

definition store_Delete ::
  "'s AssociationStore option \<Rightarrow> string \<Rightarrow> string \<Rightarrow> 's world \<Rightarrow> error option \<times> 's world" where
  "store_Delete store endpoint handle w =
     (case store of
        None \<Rightarrow> (case MemoryAssociationStore_Delete (dflt w) endpoint handle of (r, m) \<Rightarrow> (r, w\<lparr>dflt := m\<rparr>))
      | Some S \<Rightarrow> (case Delete S endpoint handle (plug w) of (r, s) \<Rightarrow> (r, w\<lparr>plug := s\<rparr>)))"

section \<open>Extensions (\<open>part_002\<close>)\<close>

text \<open>The field \<open>Namespace\<close> of the source is \<open>ext_Namespace\<close> here.\<close>

record Extension =
  ext_Namespace :: string
  Prefix :: string
  Params :: params

definition bannedPrefixes :: "string \<Rightarrow> bool" where
  "bannedPrefixes p \<longleftrightarrow> p \<in> set
     [''assoc_handle'', ''assoc_type'', ''claimed_id'', ''contact'', ''delegate'',
      ''dh_consumer_public'', ''dh_gen'', ''dh_modulus'', ''error'', ''identity'',
      ''invalidate_handle'', ''mode'', ''ns'', ''op_endpoint'', ''openid'', ''realm'',
      ''reference'', ''response_nonce'', ''return_to'', ''server'', ''session_type'',
      ''sig'', ''signed'', ''trust_root'']"

text \<open>
  The body of the first loop of \<open>parseExtensions\<close> (lines 17-38), on the maps
  \<open>prefixes\<close> and \<open>namespaces\<close>, at the key \<open>k\<close>.
\<close>

definition parseExtensions_declare ::
  "params \<Rightarrow> params \<times> params \<Rightarrow> string \<Rightarrow> error + params \<times> params" where
  "parseExtensions_declare p st k =
     (case st of (prefixes, namespaces) \<Rightarrow>
      (case SplitN2 (CHR ''.'') k of
         [part0, prefix] \<Rightarrow>
           if part0 \<noteq> ''ns'' then Inr st
           else if bannedPrefixes prefix then Inl (PrefixNotAllowed prefix)
           else if (case prefixes prefix of None \<Rightarrow> False | Some ns \<Rightarrow> ns \<noteq> mapIndex p k)
           then Inl (PrefixMultipleNamespaces prefix)
           else if (case namespaces (mapIndex p k) of None \<Rightarrow> False | Some q \<Rightarrow> q \<noteq> prefix)
           then Inl (NamespaceMultiplePrefixes (mapIndex p k))
           else Inr (prefixes(prefix \<mapsto> mapIndex p k), namespaces(mapIndex p k \<mapsto> prefix))
       | _ \<Rightarrow> Inr st))"

fun parseExtensions_declarations ::
  "params \<Rightarrow> string list \<Rightarrow> params \<times> params \<Rightarrow> error + params \<times> params" where
  "parseExtensions_declarations p [] st = Inr st"
| "parseExtensions_declarations p (k # ks) st =
     (case parseExtensions_declare p st k of
        Inl err \<Rightarrow> Inl err
      | Inr st' \<Rightarrow> parseExtensions_declarations p ks st')"

text \<open>
  The invariant of the first loop, for the proofs: after the keys in \<open>D\<close>,
  \<open>prefixes\<close> holds the declarations \<open>ns.q\<close> among them, \<open>namespaces\<close> is its
  inverse, and no declared prefix is reserved.
\<close>

definition parseExtensions_inv :: "params \<Rightarrow> string set \<Rightarrow> params \<times> params \<Rightarrow> bool" where
  "parseExtensions_inv p D st \<longleftrightarrow>
     (case st of (prefixes, namespaces) \<Rightarrow>
        (\<forall>q. prefixes q = (if ''ns.'' @ q \<in> D then p (''ns.'' @ q) else None)) \<and>
        (\<forall>v q. namespaces v = Some q \<longleftrightarrow> ''ns.'' @ q \<in> D \<and> p (''ns.'' @ q) = Some v) \<and>
        (\<forall>q. ''ns.'' @ q \<in> D \<longrightarrow> \<not> bannedPrefixes q))"

text \<open>The second loop (lines 39-50): the map \<open>positions\<close>, the counter starting at \<open>i\<close>.\<close>

fun parseExtensions_positions :: "string list \<Rightarrow> nat \<Rightarrow> (string \<rightharpoonup> nat) \<Rightarrow> (string \<rightharpoonup> nat)" where
  "parseExtensions_positions [] i pos = pos"
| "parseExtensions_positions (q # qs) i pos = parseExtensions_positions qs (Suc i) (pos(q \<mapsto> i))"

text \<open>The body of the third loop (lines 51-66).\<close>

definition parseExtensions_collect ::
  "params \<Rightarrow> (string \<rightharpoonup> nat) \<Rightarrow> Extension list \<Rightarrow> string \<Rightarrow> Extension list" where
  "parseExtensions_collect p pos exts k =
     (case SplitN2 (CHR ''.'') k of
        [prefix, key] \<Rightarrow>
          if prefix = ''ns'' then exts
          else (case pos prefix of
                  None \<Rightarrow> exts
                | Some i \<Rightarrow> exts[i := (exts ! i)\<lparr>Params := (Params (exts ! i))(key \<mapsto> mapIndex p k)\<rparr>])
      | _ \<Rightarrow> exts)"

text \<open>
  \<open>parseExtensions params\<close>. The first loop visits the keys of \<open>params\<close> in the order
  \<open>ks1\<close>, the second the keys of \<open>prefixes\<close> in the order \<open>ps\<close> (filling the slice of
  \<open>len(prefixes)\<close> extensions from index 0), the third the keys of \<open>params\<close> in the order
  \<open>ks3\<close>.
\<close>

definition parseExtensions ::
  "params \<Rightarrow> string list \<Rightarrow> string list \<Rightarrow> string list \<Rightarrow> error + Extension list" where
  "parseExtensions p ks1 ps ks3 =
     (case parseExtensions_declarations p ks1 (Map.empty, Map.empty) of
        Inl err \<Rightarrow> Inl err
      | Inr (prefixes, namespaces) \<Rightarrow>
          Inr (foldl (parseExtensions_collect p (parseExtensions_positions ps 0 Map.empty))
                 (map (\<lambda>q. \<lparr>ext_Namespace = mapIndex prefixes q, Prefix = q, Params = Map.empty\<rparr>) ps)
                 ks3))"

text \<open>
  The inner loop of \<open>encodeExtensions\<close> (lines 75-78). The map \<open>used\<close>, whose values are
  all \<open>true\<close>, is the list of its keys. The result is the prefix chosen and the counter.
\<close>

function encodeExtensions_prefix :: "string list \<Rightarrow> string \<Rightarrow> nat \<Rightarrow> string \<times> nat" where
  "encodeExtensions_prefix used prefix i =
     (if bannedPrefixes prefix \<or> prefix \<in> set used
      then encodeExtensions_prefix used (''ext'' @ Itoa i) (Suc i)
      else (prefix, i))"
  by pat_completeness auto
termination
proof (relation "measure (\<lambda>(used, prefix, i).
         2 * card {j. i \<le> j \<and> ''ext'' @ Itoa j \<in> set used}
         + (if bannedPrefixes prefix \<or> prefix \<in> set used then 1 else 0))")
  show "wf (measure (\<lambda>(used, prefix, i).
         2 * card {j. i \<le> j \<and> ''ext'' @ Itoa j \<in> set used}
         + (if bannedPrefixes prefix \<or> prefix \<in> set used then 1 else 0)))"
    by simp
next
  fix used :: "string list" and prefix :: string and i :: nat
  assume c: "bannedPrefixes prefix \<or> prefix \<in> set used"
  have bound: "n < 10 ^ length (Itoa n)" for n
  proof (induction n rule: Itoa.induct)
    case (1 n)
    show ?case
    proof (cases "n < 10")
      case True
      then show ?thesis by (subst Itoa.simps) simp
    next
      case False
      then have "n div 10 < 10 ^ length (Itoa (n div 10))" using "1" by simp
      then have "n < 10 * 10 ^ length (Itoa (n div 10))" by simp
      then show ?thesis using False by (subst Itoa.simps) simp
    qed
  qed
  define b where "b = Max (insert 0 (length ` set used))"
  have "{j. ''ext'' @ Itoa j \<in> set used} \<subseteq> {j. j < 10 ^ b}"
  proof
    fix j assume "j \<in> {j. ''ext'' @ Itoa j \<in> set used}"
    then have m: "''ext'' @ Itoa j \<in> set used" by simp
    have f: "finite (insert 0 (length ` set used))" by simp
    have "length (''ext'' @ Itoa j) \<in> insert 0 (length ` set used)"
      using m by (intro insertI2 imageI)
    then have "length (''ext'' @ Itoa j) \<le> b"
      unfolding b_def by (rule Max_ge [OF f])
    then have "length (Itoa j) \<le> b" by simp
    then have "(10::nat) ^ length (Itoa j) \<le> 10 ^ b" by (simp add: power_increasing)
    with bound [of j] have "j < 10 ^ b" by (rule less_le_trans)
    then show "j \<in> {j. j < 10 ^ b}" by simp
  qed
  then have fin: "finite {j. ''ext'' @ Itoa j \<in> set used}"
    by (rule finite_subset) simp
  let ?A = "\<lambda>k. {j. k \<le> j \<and> ''ext'' @ Itoa j \<in> set used}"
  have finA: "finite (?A k)" for k
    by (rule finite_subset [OF _ fin]) auto
  have nb: "\<not> bannedPrefixes (''ext'' @ Itoa i)"
    by (simp add: bannedPrefixes_def)
  have "2 * card (?A (Suc i)) + (if ''ext'' @ Itoa i \<in> set used then 1 else 0)
        < 2 * card (?A i) + 1"
  proof (cases "''ext'' @ Itoa i \<in> set used")
    case True
    have "?A i = insert i (?A (Suc i))" using True by (auto simp: le_Suc_eq)
    moreover have "i \<notin> ?A (Suc i)" by simp
    ultimately have "card (?A i) = Suc (card (?A (Suc i)))"
      using finA [of "Suc i"] by simp
    then show ?thesis using True by simp
  next
    case False
    have "?A i = ?A (Suc i)"
    proof (rule set_eqI)
      fix j
      show "j \<in> ?A i \<longleftrightarrow> j \<in> ?A (Suc i)"
        using False by (cases "j = i") auto
    qed
    then show ?thesis using False by simp
  qed
  then show "((used, ''ext'' @ Itoa i, Suc i), (used, prefix, i)) \<in> measure (\<lambda>(used, prefix, i).
         2 * card {j. i \<le> j \<and> ''ext'' @ Itoa j \<in> set used}
         + (if bannedPrefixes prefix \<or> prefix \<in> set used then 1 else 0))"
    using c nb by simp
qed

declare encodeExtensions_prefix.simps [simp del]

text \<open>
  The body of the outer loop of \<open>encodeExtensions\<close> on the state
  \<open>(i, used, params, signed)\<close>, for one extension and the order \<open>ks\<close> in which its
  \<open>Params\<close> are visited.
\<close>

definition encodeExtension ::
  "nat \<times> string list \<times> params \<times> string list \<Rightarrow> Extension \<times> string list
   \<Rightarrow> nat \<times> string list \<times> params \<times> string list" where
  "encodeExtension st eo =
     (case st of (i, used, p, signed) \<Rightarrow>
      (case eo of (ext, ks) \<Rightarrow>
       (case encodeExtensions_prefix used (Prefix ext) i of (prefix, i') \<Rightarrow>
          (i', prefix # used,
           foldl (\<lambda>q k. q(prefix @ ''.'' @ k \<mapsto> mapIndex (Params ext) k))
             (p(''ns.'' @ prefix \<mapsto> ext_Namespace ext)) ks,
           signed @ map (\<lambda>k. prefix @ ''.'' @ k) ks))))"

text \<open>
  \<open>encodeExtensions params extensions\<close>: the source updates \<open>params\<close> in place and
  returns \<open>signed\<close>; the model returns both.
\<close>

definition encodeExtensions :: "params \<Rightarrow> (Extension \<times> string list) list \<Rightarrow> params \<times> string list" where
  "encodeExtensions p exts =
     (case foldl encodeExtension (0, [], p, []) exts of (i, used, p', signed) \<Rightarrow> (p', signed))"


section \<open>The handler (\<open>part_000\<close>, \<open>part_001:68-71\<close>)\<close>

text \<open>
  \<open>LoginRequest\<close> and \<open>LoginResponse\<close>; the fields the two structs share carry the
  prefix \<open>req_\<close> in the request.
\<close>

record LoginRequest =
  req_ClaimedID :: string
  req_Identity :: string
  ReturnTo :: string
  Realm :: string
  req_Extensions :: "Extension list"

record LoginResponse =
  ClaimedID :: string
  Identity :: string
  OPEndpoint :: string
  Extensions :: "Extension list"

text \<open>
  The handler. \<open>Login\<close> is the external collaborator (\<open>None\<close> is the \<open>nil\<close> interface):
  it is told whether it was handed the response writer, gets the request, may change the
  world, and returns the response pointer and the error. \<open>Associations\<close> is \<open>None\<close>
  for the \<open>nil\<close> store, which stands for \<open>DefaultAssociationStore\<close>.
\<close>

record 's Handler =
  Login :: "(bool \<Rightarrow> LoginRequest \<Rightarrow> 's world \<Rightarrow> (LoginResponse option \<times> error option) \<times> 's world) option"
  Associations :: "'s AssociationStore option"

section \<open>Creating and checking associations (\<open>association.go:142-244\<close>)\<close>

text \<open>
  \<open>saveAssociation\<close>: the loop \<open>for i := 0; i < 10; i++\<close>, by the number \<open>n\<close> of
  iterations that remain. The association is returned with the handle the last
  iteration gave it, as the caller sees it through the pointer.
\<close>

fun saveAssociation_loop ::
  "lib \<Rightarrow> 's AssociationStore option \<Rightarrow> nat \<Rightarrow> Association \<Rightarrow> 's world
   \<Rightarrow> (error option \<times> Association) \<times> 's world" where
  "saveAssociation_loop L S 0 a w = ((Some CannotStoreAssociation, a), w)"
| "saveAssociation_loop L S (Suc n) a w =
     (case rand_Read 16 w of
        (Inl err, w1) \<Rightarrow> ((Some err, a), w1)
      | (Inr handle, w1) \<Rightarrow>
          (case store_Add S (a\<lparr>Handle := ascii85_Encode L handle\<rparr>) w1 of
             (None, w2) \<Rightarrow> ((None, a\<lparr>Handle := ascii85_Encode L handle\<rparr>), w2)
           | (Some err, w2) \<Rightarrow>
               if err \<noteq> ErrDuplicateAssociation
               then ((Some err, a\<lparr>Handle := ascii85_Encode L handle\<rparr>), w2)
               else saveAssociation_loop L S n (a\<lparr>Handle := ascii85_Encode L handle\<rparr>) w2))"

definition saveAssociation ::
  "lib \<Rightarrow> 's AssociationStore option \<Rightarrow> Association \<Rightarrow> 's world
   \<Rightarrow> (error option \<times> Association) \<times> 's world" where
  "saveAssociation L S a w = saveAssociation_loop L S 10 a w"

text \<open>
  For the statement of what \<open>saveAssociation\<close> does: one handle generation in a world
  that holds at least 16 bytes of entropy. The next 16 bytes are encoded into the handle
  and \<open>Add\<close> is tried; the result is the report of \<open>Add\<close> and the world it leaves.
\<close>

definition saveAssociation_attempt ::
  "lib \<Rightarrow> 's AssociationStore option \<Rightarrow> Association \<Rightarrow> 's world \<Rightarrow> error option \<times> 's world" where
  "saveAssociation_attempt L S a w =
     store_Add S (a\<lparr>Handle := ascii85_Encode L (take 16 (entropy w))\<rparr>)
       (w\<lparr>entropy := drop 16 (entropy w)\<rparr>)"

text \<open>Lines 159-172 of \<open>getAssociation\<close>: a new association is made and saved.\<close>

definition getAssociation_new ::
  "lib \<Rightarrow> 's AssociationStore option \<Rightarrow> 's world \<Rightarrow> (error + Association) \<times> 's world" where
  "getAssociation_new L S w =
     (case rand_Read 128 w of
        (Inl err, w1) \<Rightarrow> (Inl err, w1)
      | (Inr secret, w1) \<Rightarrow>
          (case time_Now w1 of (now, w2) \<Rightarrow>
             (case saveAssociation L S
                     \<lparr>Endpoint = [], Handle = [], Secret = secret, Type = hmacSHA256,
                      Expires = now + Minute\<rparr> w2 of
                ((Some err, a), w3) \<Rightarrow> (Inl err, w3)
              | ((None, a), w3) \<Rightarrow> (Inr a, w3))))"

text \<open>\<open>getAssociation\<close>; the error of \<open>store.Delete\<close> is dropped, as in the source.\<close>

definition getAssociation ::
  "lib \<Rightarrow> 's Handler \<Rightarrow> string \<Rightarrow> string \<Rightarrow> 's world \<Rightarrow> (error + Association) \<times> 's world" where
  "getAssociation L H requestHandle nonce w =
     (if requestHandle \<noteq> []
      then (case store_Get (Associations H) [] requestHandle w of
              (Inl err, w1) \<Rightarrow> (Inl err, w1)
            | (Inr None, w1) \<Rightarrow> getAssociation_new L (Associations H) w1
            | (Inr (Some a), w1) \<Rightarrow>
                (case time_Now w1 of (now, w2) \<Rightarrow>
                   if now < Expires a then (Inr a, w2)
                   else getAssociation_new L (Associations H)
                          (snd (store_Delete (Associations H) [] requestHandle w2))))
      else getAssociation_new L (Associations H) w)"

definition associate :: "'s Handler \<Rightarrow> params \<Rightarrow> error + params" where
  "associate H p = Inl (unsupportedSessionTypeError (mapIndex p ''session_type''))"

definition checkAuthentication ::
  "lib \<Rightarrow> 's Handler \<Rightarrow> params \<Rightarrow> 's world \<Rightarrow> (error + params) \<times> 's world" where
  "checkAuthentication L H p w =
     (case store_Get (Associations H) [] (mapIndex p ''assoc_handle'') w of
        (Inl err, w1) \<Rightarrow> (Inl err, w1)
      | (Inr None, w1) \<Rightarrow> (Inr [''ns'' \<mapsto> Namespace, ''is_valid'' \<mapsto> ''false''], w1)
      | (Inr (Some assoc), w1) \<Rightarrow>
          (case sign L assoc p (Split (CHR '','') (mapIndex p ''signed'')) of
             Inl err \<Rightarrow> (Inl err, w1)
           | Inr sig \<Rightarrow>
               if mapIndex p ''sig'' \<noteq> sig
               then (Inr [''ns'' \<mapsto> Namespace, ''is_valid'' \<mapsto> ''false''], w1)
               else (Inr [''ns'' \<mapsto> Namespace, ''is_valid'' \<mapsto> ''true''],
                     snd (store_Delete (Associations H) [] (Handle assoc) w1))))"

section \<open>Responders (\<open>part_001:111-174\<close>)\<close>

text \<open>
  The text of an error. The messages of the errors made outside the package are not in
  its code: \<open>OtherError\<close> carries its text, the two others have a fixed stand-in.
\<close>

definition Error :: "lib \<Rightarrow> error \<Rightarrow> string" where
  "Error L e =
     (case e of
        ErrDuplicateAssociation \<Rightarrow> ''duplicate association''
      | ErrUnauthenticated \<Rightarrow> ''authentication failed''
      | UnsupportedAssociationType t \<Rightarrow> ''unsupported association type '' @ strconv_Quote L t
      | CannotStoreAssociation \<Rightarrow> ''cannot store association''
      | unsupportedSessionTypeError t \<Rightarrow> ''session type '' @ strconv_Quote L t @ '' not supported''
      | InvalidKeyValueLine b \<Rightarrow> ''invalid key-value line '' @ strconv_Quote L b
      | UnknownNs n \<Rightarrow> ''unknown ns '' @ strconv_Quote L n
      | UnknownMode m \<Rightarrow> ''unknown mode '' @ strconv_Quote L m
      | NoReturnTo \<Rightarrow> ''cannot send id_res message, no return_to parameter''
      | PrefixNotAllowed q \<Rightarrow> ''namespace prefix '' @ strconv_Quote L q @ '' not allowed''
      | PrefixMultipleNamespaces q \<Rightarrow>
          ''namespace prefix '' @ strconv_Quote L q @ '' assigned to multiple namespaces''
      | NamespaceMultiplePrefixes n \<Rightarrow>
          ''namespace '' @ strconv_Quote L n @ '' assigned to multiple prefixes''
      | RandReadError \<Rightarrow> ''rand: read failed''
      | ShortWrite \<Rightarrow> ''short write''
      | OtherError m \<Rightarrow> m)"

text \<open>Only \<open>unsupportedSessionTypeError\<close> has the method \<open>errorParams\<close>.\<close>

definition makeError :: "lib \<Rightarrow> error \<Rightarrow> params" where
  "makeError L err =
     (case err of
        unsupportedSessionTypeError t \<Rightarrow>
          [''ns'' \<mapsto> Namespace, ''mode'' \<mapsto> ''error'', ''error'' \<mapsto> Error L err,
           ''error-code'' \<mapsto> ''unsupported-type'']
      | _ \<Rightarrow> [''ns'' \<mapsto> Namespace, ''mode'' \<mapsto> ''error'', ''error'' \<mapsto> Error L err])"

datatype responder = directResponder | indirectResponder string

definition direct :: responder where
  "direct = directResponder"

definition indirect :: "lib \<Rightarrow> string \<Rightarrow> responder" where
  "indirect L returnTo =
     (if returnTo = [] then direct
      else if \<not> url_Parse_ok L returnTo then direct
      else indirectResponder returnTo)"

text \<open>
  \<open>respond(params, err)\<close>: every call in the package passes either an error and no
  parameters, or parameters and no error.
\<close>

definition respond :: "lib \<Rightarrow> responder \<Rightarrow> error + params \<Rightarrow> 's world \<Rightarrow> 's world" where
  "respond L r res w =
     (case r of
        directResponder \<Rightarrow>
          (case res of
             Inl err \<Rightarrow> w\<lparr>responses := responses w @ [Direct 400 (makeError L err)]\<rparr>
           | Inr p \<Rightarrow> w\<lparr>responses := responses w @ [Direct 200 p]\<rparr>)
      | indirectResponder returnTo \<Rightarrow>
          (case res of
             Inl err \<Rightarrow> w\<lparr>responses := responses w @ [Redirect returnTo (makeError L err)]\<rparr>
           | Inr p \<Rightarrow> w\<lparr>responses := responses w @ [Redirect returnTo p]\<rparr>))"

section \<open>The login flow (\<open>part_000:21-144\<close>)\<close>

text \<open>
  The orders in which the runtime visits the maps of one login: the three loops of
  \<open>parseExtensions\<close>, and the \<open>Params\<close> of each extension of the response.
\<close>

record ranges =
  declare_order :: "string list"
  prefixes_order :: "string list"
  collect_order :: "string list"
  encode_orders :: "string list list"

definition parseLoginRequest :: "params \<Rightarrow> ranges \<Rightarrow> error + LoginRequest" where
  "parseLoginRequest p rg =
     (case parseExtensions p (declare_order rg) (prefixes_order rg) (collect_order rg) of
        Inl err \<Rightarrow> Inl err
      | Inr extensions \<Rightarrow>
          Inr \<lparr>req_ClaimedID = mapIndex p ''claimed_id'', req_Identity = mapIndex p ''identity'',
               ReturnTo = mapIndex p ''return_to'', Realm = mapIndex p ''realm'',
               req_Extensions = extensions\<rparr>)"

definition getNonce :: "lib \<Rightarrow> 's world \<Rightarrow> (error + string) \<times> 's world" where
  "getNonce L w =
     (case rand_Read 16 w of
        (Inl err, w1) \<Rightarrow> (Inl err, w1)
      | (Inr nonce, w1) \<Rightarrow>
          (case time_Now w1 of (now, w2) \<Rightarrow>
             (Inr (time_Format_RFC3339 L now @ ascii85_Encode L nonce), w2)))"

text \<open>
  Lines 110-142 of \<open>login\<close>: the response is encoded and signed. The result is the error
  of \<open>sign\<close>, or the parameters handed to the responder.
\<close>

definition login_encode ::
  "lib \<Rightarrow> params \<Rightarrow> LoginResponse \<Rightarrow> string \<Rightarrow> Association \<Rightarrow> string list list \<Rightarrow> error + params" where
  "login_encode L p resp nonce assoc orders =
     (let signed0 = [''op_endpoint'', ''return_to'', ''response_nonce'', ''assoc_handle''];
          rparams0 = [''ns'' \<mapsto> Namespace, ''mode'' \<mapsto> ''id_res'',
                      ''return_to'' \<mapsto> mapIndex p ''return_to'',
                      ''op_endpoint'' \<mapsto> OPEndpoint resp,
                      ''response_nonce'' \<mapsto> nonce,
                      ''assoc_handle'' \<mapsto> Handle assoc];
          signed1 = (if ClaimedID resp \<noteq> [] then signed0 @ [''claimed_id''] else signed0);
          rparams1 = (if ClaimedID resp \<noteq> [] then rparams0(''claimed_id'' \<mapsto> ClaimedID resp)
                      else rparams0);
          signed2 = (if Identity resp \<noteq> [] then signed1 @ [''identity''] else signed1);
          rparams2 = (if Identity resp \<noteq> [] then rparams1(''identity'' \<mapsto> Identity resp)
                      else rparams1);
          rparams3 = (if mapIndex p ''assoc_handle'' \<noteq> [] \<and> mapIndex p ''assoc_handle'' \<noteq> Handle assoc
                      then rparams2(''invalidate_handle'' \<mapsto> mapIndex p ''assoc_handle'')
                      else rparams2)
      in (case encodeExtensions rparams3 (zip (Extensions resp) orders) of
            (rparams4, esigned) \<Rightarrow>
              (case sign L assoc (rparams4(''signed'' \<mapsto> Join (signed2 @ esigned) '','')) (signed2 @ esigned) of
                 Inl err \<Rightarrow> Inl err
               | Inr sig \<Rightarrow>
                   Inr (rparams4(''signed'' \<mapsto> Join (signed2 @ esigned) '','', ''sig'' \<mapsto> sig)))))"

text \<open>Lines 95-143 of \<open>login\<close>, reached with the response \<open>resp\<close> of the collaborator.\<close>

definition login_id_res ::
  "lib \<Rightarrow> 's Handler \<Rightarrow> ranges \<Rightarrow> params \<Rightarrow> LoginResponse \<Rightarrow> 's world \<Rightarrow> 's world" where
  "login_id_res L H rg p resp w =
     (if mapIndex p ''return_to'' = [] then respond L direct (Inl NoReturnTo) w
      else (case getNonce L w of
              (Inl err, w1) \<Rightarrow> respond L (indirect L (mapIndex p ''return_to'')) (Inl err) w1
            | (Inr nonce, w1) \<Rightarrow>
                (case getAssociation L H (mapIndex p ''assoc_handle'') nonce w1 of
                   (Inl err, w2) \<Rightarrow> respond L (indirect L (mapIndex p ''return_to'')) (Inl err) w2
                 | (Inr assoc, w2) \<Rightarrow>
                     respond L (indirect L (mapIndex p ''return_to''))
                       (login_encode L p resp nonce assoc (encode_orders rg)) w2)))"

text \<open>The call \<open>h.Login.Login(w, r, req)\<close> guarded by \<open>h.Login != nil\<close>.\<close>

definition callLogin ::
  "'s Handler \<Rightarrow> bool \<Rightarrow> LoginRequest \<Rightarrow> 's world \<Rightarrow> (LoginResponse option \<times> error option) \<times> 's world" where
  "callLogin H interactive req w =
     (case Login H of None \<Rightarrow> ((None, None), w) | Some f \<Rightarrow> f interactive req w)"

text \<open>\<open>login\<close>; \<open>Inl\<close> is the panic of the default case, with its message.\<close>

definition login :: "lib \<Rightarrow> 's Handler \<Rightarrow> ranges \<Rightarrow> params \<Rightarrow> 's world \<Rightarrow> string + 's world" where
  "login L H rg p w =
     (case parseLoginRequest p rg of
        Inl err \<Rightarrow> Inr (respond L (indirect L (mapIndex p ''return_to'')) (Inl err) w)
      | Inr req \<Rightarrow>
          if mapIndex p ''mode'' = ''checkid_immediate'' then
            (case callLogin H False req w of
               ((resp, err), w1) \<Rightarrow>
                 (case err of
                    Some e \<Rightarrow>
                      if e \<noteq> ErrUnauthenticated
                      then Inr (respond L (indirect L (mapIndex p ''return_to'')) (Inl e) w1)
                      else (case resp of
                              Some r \<Rightarrow> Inr (login_id_res L H rg p r w1)
                            | None \<Rightarrow>
                                Inr (respond L (indirect L (mapIndex p ''return_to''))
                                       (Inr [''ns'' \<mapsto> Namespace, ''mode'' \<mapsto> ''setup_needed'']) w1))
                  | None \<Rightarrow>
                      (case resp of
                         Some r \<Rightarrow> Inr (login_id_res L H rg p r w1)
                       | None \<Rightarrow>
                           Inr (respond L (indirect L (mapIndex p ''return_to''))
                                  (Inr [''ns'' \<mapsto> Namespace, ''mode'' \<mapsto> ''setup_needed'']) w1))))
          else if mapIndex p ''mode'' = ''checkid_setup'' then
            (case callLogin H True req w of
               ((resp, err), w1) \<Rightarrow>
                 (case err of
                    Some e \<Rightarrow>
                      if e \<noteq> ErrUnauthenticated
                      then Inr (respond L (indirect L (mapIndex p ''return_to'')) (Inl e) w1)
                      else (case resp of
                              Some r \<Rightarrow> Inr (login_id_res L H rg p r w1)
                            | None \<Rightarrow>
                                Inr (respond L (indirect L (mapIndex p ''return_to''))
                                       (Inr [''ns'' \<mapsto> Namespace, ''mode'' \<mapsto> ''cancel'']) w1))
                  | None \<Rightarrow>
                      (case resp of
                         Some r \<Rightarrow> Inr (login_id_res L H rg p r w1)
                       | None \<Rightarrow> Inr w1)))
          else Inl (''login called with unexpected mode '' @ strconv_Quote L (mapIndex p ''mode'')))"

section \<open>The dispatcher (\<open>part_001:13-22\<close>, \<open>part_001:73-99\<close>)\<close>

text \<open>
  \<open>ParseHTTP\<close>: the entry \<open>k\<close> of the result is the first value of the key
  \<open>openid.k\<close>, when that key has a value; no two keys of the input give the same entry,
  so the order of the loop does not show.
\<close>

definition ParseHTTP :: "(string \<rightharpoonup> string list) \<Rightarrow> params" where
  "ParseHTTP v = (\<lambda>k. case v (''openid.'' @ k) of None \<Rightarrow> None | Some [] \<Rightarrow> None | Some (x # xs) \<Rightarrow> Some x)"

text \<open>The request after \<open>r.ParseForm()\<close>: the method, the URL query and the post form.\<close>

record request =
  Method :: string
  Query :: "string \<rightharpoonup> string list"
  PostForm :: "string \<rightharpoonup> string list"

definition ServeHTTP_params :: "request \<Rightarrow> params" where
  "ServeHTTP_params r =
     (if Method r = ''GET'' then ParseHTTP (Query r)
      else if Method r = ''POST'' then ParseHTTP (PostForm r)
      else Map.empty)"

text \<open>The first switch of \<open>ServeHTTP\<close> (lines 82-87): no branch leaves the function.\<close>

definition ServeHTTP_ns :: "lib \<Rightarrow> params \<Rightarrow> 's world \<Rightarrow> 's world" where
  "ServeHTTP_ns L p w =
     (if mapIndex p ''ns'' = Namespace then w
      else respond L (indirect L (mapIndex p ''return_to'')) (Inl (UnknownNs (mapIndex p ''ns''))) w)"

text \<open>The second switch (lines 88-97).\<close>

definition ServeHTTP_mode :: "lib \<Rightarrow> 's Handler \<Rightarrow> ranges \<Rightarrow> params \<Rightarrow> 's world \<Rightarrow> string + 's world" where
  "ServeHTTP_mode L H rg p w =
     (if mapIndex p ''mode'' = ''associate'' then Inr (respond L direct (associate H p) w)
      else if mapIndex p ''mode'' = ''checkid_immediate'' \<or> mapIndex p ''mode'' = ''checkid_setup''
      then login L H rg p w
      else if mapIndex p ''mode'' = ''check_authentication''
      then (case checkAuthentication L H p w of (res, w1) \<Rightarrow> Inr (respond L direct res w1))
      else Inr (respond L (indirect L (mapIndex p ''return_to''))
                  (Inl (UnknownMode (mapIndex p ''mode''))) w))"

definition ServeHTTP :: "lib \<Rightarrow> 's Handler \<Rightarrow> ranges \<Rightarrow> request \<Rightarrow> 's world \<Rightarrow> string + 's world" where
  "ServeHTTP L H rg r w =
     ServeHTTP_mode L H rg (ServeHTTP_params r) (ServeHTTP_ns L (ServeHTTP_params r) w)"

section \<open>A library instance for running the model\<close>

text \<open>
  Stand-ins for the library functions, used only where the model is run on concrete
  inputs: the theorems hold for every library.
\<close>

definition testLib :: lib where
  "testLib =
     \<lparr>hmac_Sum = (\<lambda>alg k m. (case alg of SHA1 \<Rightarrow> ''1'' | SHA256 \<Rightarrow> ''2'') @ k @ ''/'' @ m),
      base64_URLEncoding = (\<lambda>s. s),
      ascii85_Encode = (\<lambda>s. s),
      strconv_Quote = (\<lambda>s. ''\"'' @ s @ ''\"''),
      url_Parse_ok = (\<lambda>s. True),
      time_Format_RFC3339 = (\<lambda>t. ''T'')\<rparr>"

section \<open>Signing\<close>

lemma sign_write_fields:
  "h_alg (sign_write p h k) = h_alg h \<and> h_key (sign_write p h k) = h_key h"
  by (simp add: sign_write_def)

lemma sign_write_written:
  "room (h_w h) = None \<Longrightarrow>
   room (h_w (sign_write p h k)) = None \<and>
   written (h_w (sign_write p h k)) = written (h_w h) @ k @ '':'' @ mapIndex p k @ ''\<newline>''"
  by (simp add: sign_write_def WriteKeyValuePair_def Write_def)

lemma foldl_sign_write:
  "room (h_w h) = None \<Longrightarrow>
   h_alg (foldl (sign_write p) h ks) = h_alg h \<and>
   h_key (foldl (sign_write p) h ks) = h_key h \<and>
   room (h_w (foldl (sign_write p) h ks)) = None \<and>
   written (h_w (foldl (sign_write p) h ks)) =
     written (h_w h) @ concat (map (\<lambda>k. k @ '':'' @ mapIndex p k @ ''\<newline>'') ks)"
proof (induction ks arbitrary: h)
  case Nil
  then show ?case by simp
next
  case (Cons k ks)
  have r: "room (h_w (sign_write p h k)) = None"
    using Cons.prems by (simp add: sign_write_written)
  show ?case
    using Cons.IH [OF r] Cons.prems
    by (simp add: sign_write_fields sign_write_written)
qed

lemma Sum_foldl_sign_write:
  "hash_Sum L (foldl (sign_write p) (hmac_New alg k) ks) =
   hmac_Sum L alg k (concat (map (\<lambda>f. f @ '':'' @ mapIndex p f @ ''\<newline>'') ks))"
  using foldl_sign_write [of "hmac_New alg k" p ks]
  by (simp add: hash_Sum_def hmac_New_def)

lemma sign_message:
  "sign L a p signed =
     (if Type a = hmacSHA1
      then Inr (base64_URLEncoding L (hmac_Sum L SHA1 (Secret a)
                 (concat (map (\<lambda>f. f @ '':'' @ mapIndex p f @ ''\<newline>'') signed))))
      else if Type a = hmacSHA256
      then Inr (base64_URLEncoding L (hmac_Sum L SHA256 (Secret a)
                 (concat (map (\<lambda>f. f @ '':'' @ mapIndex p f @ ''\<newline>'') signed))))
      else Inl (UnsupportedAssociationType (Type a)))"
  by (simp add: sign_def Sum_foldl_sign_write)

text \<open>
  C1. For an association of type HMAC-SHA1 or HMAC-SHA256, \<open>sign\<close> returns the URL-safe
  base64 text of the HMAC (SHA-1 or SHA-256, keyed by the secret) of the lines
  \<open>field:value\<newline>\<close>, one for each field of the list in its order, the value being the
  map's entry or the empty string when the field is absent; for any other type it fails
  with the unsupported-type error.
\<close>

theorem sign_spec:
  "sign L a p signed =
     (let msg = concat (map (\<lambda>f. f @ '':'' @ (case p f of None \<Rightarrow> [] | Some v \<Rightarrow> v) @ ''\<newline>'') signed)
      in if Type a = ''HMAC-SHA1'' then Inr (base64_URLEncoding L (hmac_Sum L SHA1 (Secret a) msg))
         else if Type a = ''HMAC-SHA256'' then Inr (base64_URLEncoding L (hmac_Sum L SHA256 (Secret a) msg))
         else Inl (UnsupportedAssociationType (Type a)))"
  by (simp add: sign_message hmacSHA1_def hmacSHA256_def mapIndex_def Let_def)

section \<open>Splitting and the key-value form\<close>

lemma SplitN2_no_sep: "c \<notin> set s \<Longrightarrow> SplitN2 c s = [s]"
  by (induction s) auto

lemma SplitN2_sep: "c \<notin> set a \<Longrightarrow> SplitN2 c (a @ c # b) = [a, b]"
  by (induction a) auto

lemma SplitN2_length: "length (SplitN2 c s) = (if c \<in> set s then 2 else 1)"
proof (cases "c \<in> set s")
  case True
  then obtain a b where "s = a @ c # b" "c \<notin> set a"
    by (meson split_list_first)
  then show ?thesis using True by (simp add: SplitN2_sep)
next
  case False
  then show ?thesis by (simp add: SplitN2_no_sep)
qed

lemma SplitN2_two: "SplitN2 c s = [a, b] \<longleftrightarrow> c \<notin> set a \<and> s = a @ c # b"
proof
  assume h: "SplitN2 c s = [a, b]"
  then have "c \<in> set s" using SplitN2_length [of c s] by (auto split: if_splits)
  then obtain a' b' where s: "s = a' @ c # b'" "c \<notin> set a'"
    by (meson split_list_first)
  then have "SplitN2 c s = [a', b']" by (simp add: SplitN2_sep)
  with h s show "c \<notin> set a \<and> s = a @ c # b" by simp
next
  assume "c \<notin> set a \<and> s = a @ c # b"
  then show "SplitN2 c s = [a, b]" by (simp add: SplitN2_sep)
qed

lemma ParseKeyValue_loop_ok:
  "\<not> isl (ParseKeyValue_loop p bs) \<longleftrightarrow> (\<forall>b\<in>set bs. CHR '':'' \<in> set b)"
proof (induction bs arbitrary: p)
  case Nil
  then show ?case by simp
next
  case (Cons b bs)
  show ?case
  proof (cases "CHR '':'' \<in> set b")
    case True
    then obtain k v where "SplitN2 (CHR '':'') b = [k, v]"
      by (metis SplitN2_sep split_list_first)
    then show ?thesis using True Cons.IH by simp
  next
    case False
    then show ?thesis by (simp add: SplitN2_no_sep)
  qed
qed

lemma Split_not_Nil: "Split c s \<noteq> []"
  by (induction s) (auto split: list.splits)

lemma Split_snoc_sep: "Split c (s @ [c]) = Split c s @ [[]]"
  by (induction s) (auto simp: Split_not_Nil split: list.splits)

lemma EncodeKeyValue_written:
  "EncodeKeyValue w p ks = (w', None) \<Longrightarrow>
   written w' = written w @ concat (map (\<lambda>k. k @ '':'' @ mapIndex p k @ ''\<newline>'') ks)"
proof (induction ks arbitrary: w)
  case Nil
  then show ?case by simp
next
  case (Cons k ks)
  obtain w1 e1 where s: "WriteKeyValuePair w k (mapIndex p k) = (w1, e1)"
    by (cases "WriteKeyValuePair w k (mapIndex p k)")
  with Cons.prems have e1: "e1 = None" and r: "EncodeKeyValue w1 p ks = (w', None)"
    by (auto split: option.splits)
  have "written w1 = written w @ k @ '':'' @ mapIndex p k @ ''\<newline>''"
    using s e1 by (auto simp: WriteKeyValuePair_def Write_def split: option.splits if_splits)
  with Cons.IH [OF r] show ?case by simp
qed

lemma concat_lines_snoc:
  "ks \<noteq> [] \<Longrightarrow> \<exists>s. concat (map (\<lambda>k. k @ '':'' @ mapIndex p k @ ''\<newline>'') ks) = s @ ''\<newline>''"
proof (induction ks rule: rev_induct)
  case Nil
  then show ?case by simp
next
  case (snoc k ks)
  show ?case
    by (rule exI [of _ "concat (map (\<lambda>k. k @ '':'' @ mapIndex p k @ ''\<newline>'') ks) @ k @ '':'' @ mapIndex p k"])
       simp
qed

text \<open>
  C10. \<open>ParseKeyValue\<close> succeeds exactly when every segment of its input between
  newlines, the one after the last newline included, holds a colon. So, for a parameter
  map with at least one entry, whatever the order in which its keys are visited and
  whatever the writer, when \<open>EncodeKeyValue\<close> writes the map to an empty writer without
  error, \<open>ParseKeyValue\<close> of the bytes written returns an error: they end with a
  newline, and the empty segment after it holds no colon.
\<close>

theorem ParseKeyValue_EncodeKeyValue:
  "(\<not> isl (ParseKeyValue body) \<longleftrightarrow> (\<forall>b\<in>set (Split (CHR ''\<newline>'') body). CHR '':'' \<in> set b)) \<and>
   (dom p \<noteq> {} \<and> distinct ks \<and> set ks = dom p \<and>
    EncodeKeyValue \<lparr>written = [], room = r\<rparr> p ks = (w', None)
    \<longrightarrow> isl (ParseKeyValue (written w')))"
proof (intro conjI impI)
  show "\<not> isl (ParseKeyValue body) \<longleftrightarrow> (\<forall>b\<in>set (Split (CHR ''\<newline>'') body). CHR '':'' \<in> set b)"
    by (simp add: ParseKeyValue_def ParseKeyValue_loop_ok)
next
  assume h: "dom p \<noteq> {} \<and> distinct ks \<and> set ks = dom p \<and>
    EncodeKeyValue \<lparr>written = [], room = r\<rparr> p ks = (w', None)"
  then have "set ks \<noteq> {}" by simp
  then have ne: "ks \<noteq> []" by auto
  from h have "written w' = concat (map (\<lambda>k. k @ '':'' @ mapIndex p k @ ''\<newline>'') ks)"
    using EncodeKeyValue_written [of "\<lparr>written = [], room = r\<rparr>" p ks w'] by simp
  with concat_lines_snoc [OF ne, of p] obtain s where s: "written w' = s @ ''\<newline>''" by auto
  have "last (Split (CHR ''\<newline>'') (written w')) = []"
    unfolding s by (simp add: Split_snoc_sep)
  moreover have "last (Split (CHR ''\<newline>'') (written w')) \<in> set (Split (CHR ''\<newline>'') (written w'))"
    by (simp add: Split_not_Nil)
  ultimately have "\<exists>b\<in>set (Split (CHR ''\<newline>'') (written w')). CHR '':'' \<notin> set b"
    by (metis empty_iff empty_set)
  then show "isl (ParseKeyValue (written w'))"
    using ParseKeyValue_loop_ok [of Map.empty "Split (CHR ''\<newline>'') (written w')"]
    by (auto simp: ParseKeyValue_def)
qed

theorem ParseKeyValue_EncodeKeyValue_witness:
  "Split (CHR ''\<newline>'') ''ns:x\<newline>mode:error'' = [''ns:x'', ''mode:error''] \<and>
   \<not> isl (ParseKeyValue ''ns:x\<newline>mode:error'') \<and>
   dom [''mode'' \<mapsto> ''id_res''] \<noteq> {} \<and>
   EncodeKeyValue \<lparr>written = [], room = None\<rparr> [''mode'' \<mapsto> ''id_res''] [''mode'']
     = (\<lparr>written = ''mode:id_res\<newline>'', room = None\<rparr>, None) \<and>
   isl (ParseKeyValue ''mode:id_res\<newline>'')"
  using ParseKeyValue_EncodeKeyValue [of "''ns:x\<newline>mode:error''" "[''mode'' \<mapsto> ''id_res'']" "[''mode'']" None
      "\<lparr>written = ''mode:id_res\<newline>'', room = None\<rparr>"]
  by (simp add: WriteKeyValuePair_def Write_def mapIndex_def)

section \<open>Storing an association\<close>


lemma saveAssociation_attempt_Handle:
  "saveAssociation_attempt L S (a\<lparr>Handle := x\<rparr>) w = saveAssociation_attempt L S a w"
  by (simp add: saveAssociation_attempt_def)

lemma saveAssociation_loop_rand:
  "length (entropy w) < 16 \<Longrightarrow>
   saveAssociation_loop L S (Suc n) a w = ((Some RandReadError, a), w)"
  by (simp add: rand_Read_def)

lemma saveAssociation_loop_dup:
  "16 \<le> length (entropy w) \<Longrightarrow>
   fst (saveAssociation_attempt L S a w) = Some ErrDuplicateAssociation \<Longrightarrow>
   saveAssociation_loop L S (Suc n) (a\<lparr>Handle := x\<rparr>) w =
   saveAssociation_loop L S n (a\<lparr>Handle := ascii85_Encode L (take 16 (entropy w))\<rparr>)
     (snd (saveAssociation_attempt L S a w))"
  by (cases "store_Add S (a\<lparr>Handle := ascii85_Encode L (take 16 (entropy w))\<rparr>)
               (w\<lparr>entropy := drop 16 (entropy w)\<rparr>)")
     (simp add: rand_Read_def saveAssociation_attempt_def)

lemma saveAssociation_loop_end:
  "16 \<le> length (entropy w) \<Longrightarrow>
   fst (saveAssociation_attempt L S a w) \<noteq> Some ErrDuplicateAssociation \<Longrightarrow>
   saveAssociation_loop L S (Suc n) (a\<lparr>Handle := x\<rparr>) w =
   ((fst (saveAssociation_attempt L S a w), a\<lparr>Handle := ascii85_Encode L (take 16 (entropy w))\<rparr>),
    snd (saveAssociation_attempt L S a w))"
  by (cases "store_Add S (a\<lparr>Handle := ascii85_Encode L (take 16 (entropy w))\<rparr>)
               (w\<lparr>entropy := drop 16 (entropy w)\<rparr>)")
     (auto simp: rand_Read_def saveAssociation_attempt_def split: option.splits)

lemma saveAssociation_loop_iter:
  "k \<le> n \<Longrightarrow>
   (\<forall>j<k. 16 \<le> length (entropy (((\<lambda>v. snd (saveAssociation_attempt L S a v)) ^^ j) w)) \<and>
          fst (saveAssociation_attempt L S a (((\<lambda>v. snd (saveAssociation_attempt L S a v)) ^^ j) w))
            = Some ErrDuplicateAssociation) \<Longrightarrow>
   \<exists>x. saveAssociation_loop L S n (a\<lparr>Handle := x0\<rparr>) w =
        saveAssociation_loop L S (n - k) (a\<lparr>Handle := x\<rparr>)
          (((\<lambda>v. snd (saveAssociation_attempt L S a v)) ^^ k) w)"
proof (induction k)
  case 0
  then show ?case by auto
next
  case (Suc k)
  let ?W = "\<lambda>j. ((\<lambda>v. snd (saveAssociation_attempt L S a v)) ^^ j) w"
  from Suc obtain x where x: "saveAssociation_loop L S n (a\<lparr>Handle := x0\<rparr>) w =
        saveAssociation_loop L S (n - k) (a\<lparr>Handle := x\<rparr>) (?W k)"
    by auto
  have n: "n - k = Suc (n - Suc k)" using Suc.prems(1) by simp
  have d: "16 \<le> length (entropy (?W k))"
     "fst (saveAssociation_attempt L S a (?W k)) = Some ErrDuplicateAssociation"
    using Suc.prems(2) by auto
  have "saveAssociation_loop L S (n - k) (a\<lparr>Handle := x\<rparr>) (?W k) =
        saveAssociation_loop L S (n - Suc k) (a\<lparr>Handle := ascii85_Encode L (take 16 (entropy (?W k)))\<rparr>)
          (?W (Suc k))"
    unfolding n using saveAssociation_loop_dup [OF d] by simp
  with x show ?case by auto
qed

lemma saveAssociation_loop_memory:
  "saveAssociation_loop L None n a w = ((None, a'), w') \<Longrightarrow>
   MemoryAssociationStore_Get (dflt w) (Endpoint a) (Handle a') = Inr None \<and>
   MemoryAssociationStore_Get (dflt w') (Endpoint a) (Handle a') = Inr (Some a')"
proof (induction n arbitrary: a w)
  case 0
  then show ?case by simp
next
  case (Suc n)
  show ?case
  proof (cases "length (entropy w) < 16")
    case True
    with Suc.prems show ?thesis by (simp add: rand_Read_def)
  next
    case False
    let ?a1 = "a\<lparr>Handle := ascii85_Encode L (take 16 (entropy w))\<rparr>"
    let ?w1 = "w\<lparr>entropy := drop 16 (entropy w)\<rparr>"
    show ?thesis
    proof (cases "MemoryAssociationStore_Get (dflt w) (Endpoint a) (Handle ?a1) = Inr None")
      case True
      then have "a' = ?a1 \<and> w' = ?w1\<lparr>dflt := (dflt w)(Endpoint a \<mapsto>
           (case dflt w (Endpoint a) of None \<Rightarrow> Map.empty | Some hm \<Rightarrow> hm)(Handle ?a1 \<mapsto> ?a1))\<rparr>"
        using Suc.prems False
        by (auto simp: rand_Read_def store_Add_def MemoryAssociationStore_Add_def Let_def)
      then show ?thesis using True
        by (simp add: MemoryAssociationStore_Get_def)
    next
      case g: False
      then have "saveAssociation_loop L None n ?a1 ?w1 = ((None, a'), w')"
        using Suc.prems False
        by (auto simp: rand_Read_def store_Add_def MemoryAssociationStore_Add_def
            MemoryAssociationStore_Get_def split: option.splits)
      from Suc.IH [OF this] show ?thesis by simp
    qed
  qed
qed

text \<open>
  C9. Storing a new association makes at most 10 handle generations. Let \<open>W j\<close> be the
  world after \<open>j\<close> attempts, each of which took 16 bytes of entropy, encoded them into
  the handle and tried \<open>Add\<close>. While the attempts report a duplicate the next one is
  made. The first attempt that the random source fails at ends the operation with that
  error; the first attempt whose \<open>Add\<close> reports anything but a duplicate ends it with
  that report at once (success when \<open>Add\<close> reports no error, in which case the
  association is returned with the handle of that attempt); and when all 10 attempts
  report a duplicate the operation fails. With the in-memory store, a successful
  operation stored the association under a handle that was not present for its endpoint.
\<close>

theorem saveAssociation_attempts:
  "(let W = (\<lambda>j. ((\<lambda>v. snd (saveAssociation_attempt L S a v)) ^^ j) w);
        dup = (\<lambda>j. 16 \<le> length (entropy (W j)) \<and>
                    fst (saveAssociation_attempt L S a (W j)) = Some ErrDuplicateAssociation)
    in (\<forall>k<10. (\<forall>j<k. dup j) \<and> length (entropy (W k)) < 16 \<longrightarrow>
          fst (fst (saveAssociation L S a w)) = Some RandReadError \<and>
          snd (saveAssociation L S a w) = W k) \<and>
       (\<forall>k<10. (\<forall>j<k. dup j) \<and> 16 \<le> length (entropy (W k)) \<and>
          fst (saveAssociation_attempt L S a (W k)) \<noteq> Some ErrDuplicateAssociation \<longrightarrow>
          saveAssociation L S a w =
            ((fst (saveAssociation_attempt L S a (W k)),
              a\<lparr>Handle := ascii85_Encode L (take 16 (entropy (W k)))\<rparr>),
             snd (saveAssociation_attempt L S a (W k)))) \<and>
       ((\<forall>j<10. dup j) \<longrightarrow>
          fst (fst (saveAssociation L S a w)) = Some CannotStoreAssociation \<and>
          snd (saveAssociation L S a w) = W 10)) \<and>
   (\<forall>a' w0 w'. saveAssociation L None a w0 = ((None, a'), w') \<longrightarrow>
      MemoryAssociationStore_Get (dflt w0) (Endpoint a) (Handle a') = Inr None \<and>
      MemoryAssociationStore_Get (dflt w') (Endpoint a) (Handle a') = Inr (Some a'))"
proof -
  let ?W = "\<lambda>j. ((\<lambda>v. snd (saveAssociation_attempt L S a v)) ^^ j) w"
  let ?dup = "\<lambda>j. 16 \<le> length (entropy (?W j)) \<and>
                    fst (saveAssociation_attempt L S a (?W j)) = Some ErrDuplicateAssociation"
  have iter: "\<exists>x. saveAssociation L S a w = saveAssociation_loop L S (10 - k) (a\<lparr>Handle := x\<rparr>) (?W k)"
    if "k \<le> 10" "\<forall>j<k. ?dup j" for k
    using saveAssociation_loop_iter [of k 10 L S a w "Handle a"] that
    by (simp add: saveAssociation_def)
  have c1: "fst (fst (saveAssociation L S a w)) = Some RandReadError \<and>
          snd (saveAssociation L S a w) = ?W k"
    if "k < 10" "\<forall>j<k. ?dup j" "length (entropy (?W k)) < 16" for k
  proof -
    from iter [of k] that obtain x where
      x: "saveAssociation L S a w = saveAssociation_loop L S (10 - k) (a\<lparr>Handle := x\<rparr>) (?W k)"
      by auto
    have "10 - k = Suc (9 - k)" using that(1) by simp
    then show ?thesis using x saveAssociation_loop_rand [OF that(3)] by simp
  qed
  have c2: "saveAssociation L S a w =
            ((fst (saveAssociation_attempt L S a (?W k)),
              a\<lparr>Handle := ascii85_Encode L (take 16 (entropy (?W k)))\<rparr>),
             snd (saveAssociation_attempt L S a (?W k)))"
    if "k < 10" "\<forall>j<k. ?dup j" "16 \<le> length (entropy (?W k))"
       "fst (saveAssociation_attempt L S a (?W k)) \<noteq> Some ErrDuplicateAssociation" for k
  proof -
    from iter [of k] that obtain x where
      x: "saveAssociation L S a w = saveAssociation_loop L S (10 - k) (a\<lparr>Handle := x\<rparr>) (?W k)"
      by auto
    have "10 - k = Suc (9 - k)" using that(1) by simp
    then show ?thesis using x saveAssociation_loop_end [OF that(3) that(4)] by simp
  qed
  have c3: "fst (fst (saveAssociation L S a w)) = Some CannotStoreAssociation \<and>
          snd (saveAssociation L S a w) = ?W 10"
    if "\<forall>j<10. ?dup j"
    using iter [of 10] that by auto
  have c4: "MemoryAssociationStore_Get (dflt w0) (Endpoint a) (Handle a') = Inr None \<and>
      MemoryAssociationStore_Get (dflt w') (Endpoint a) (Handle a') = Inr (Some a')"
    if "saveAssociation L None a w0 = ((None, a'), w')" for a' and w0 w' :: "'b world"
    using that saveAssociation_loop_memory [of L 10 a w0 a' w'] by (simp add: saveAssociation_def)
  show ?thesis
    unfolding Let_def using c1 c2 c3 c4 by blast
qed


theorem saveAssociation_attempts_witness:
  "saveAssociation testLib None
     \<lparr>Endpoint = [], Handle = [], Secret = ''k'', Type = hmacSHA256, Expires = 60\<rparr>
     \<lparr>dflt = [[] \<mapsto> [''aaaaaaaaaaaaaaaa'' \<mapsto>
                \<lparr>Endpoint = [], Handle = ''aaaaaaaaaaaaaaaa'', Secret = ''old'', Type = hmacSHA256, Expires = 7\<rparr>]],
      plug = (), entropy = ''aaaaaaaaaaaaaaaabbbbbbbbbbbbbbbbcc'', clock = (\<lambda>n. 0), ticks = 0, responses = []\<rparr>
   = ((None, \<lparr>Endpoint = [], Handle = ''bbbbbbbbbbbbbbbb'', Secret = ''k'', Type = hmacSHA256, Expires = 60\<rparr>),
      \<lparr>dflt = [[] \<mapsto> [''aaaaaaaaaaaaaaaa'' \<mapsto>
                \<lparr>Endpoint = [], Handle = ''aaaaaaaaaaaaaaaa'', Secret = ''old'', Type = hmacSHA256, Expires = 7\<rparr>,
                ''bbbbbbbbbbbbbbbb'' \<mapsto>
                \<lparr>Endpoint = [], Handle = ''bbbbbbbbbbbbbbbb'', Secret = ''k'', Type = hmacSHA256, Expires = 60\<rparr>]],
      plug = (), entropy = ''cc'', clock = (\<lambda>n. 0), ticks = 0, responses = []\<rparr>)"
  using saveAssociation_attempts [of testLib None
     "\<lparr>Endpoint = [], Handle = [], Secret = ''k'', Type = hmacSHA256, Expires = 60\<rparr>"
     "\<lparr>dflt = [[] \<mapsto> [''aaaaaaaaaaaaaaaa'' \<mapsto>
                \<lparr>Endpoint = [], Handle = ''aaaaaaaaaaaaaaaa'', Secret = ''old'', Type = hmacSHA256, Expires = 7\<rparr>]],
      plug = (), entropy = ''aaaaaaaaaaaaaaaabbbbbbbbbbbbbbbbcc'', clock = (\<lambda>n. 0), ticks = 0, responses = []\<rparr>"]
  by (simp add: saveAssociation_def numeral_eq_Suc rand_Read_def store_Add_def testLib_def
      MemoryAssociationStore_Add_def MemoryAssociationStore_Get_def saveAssociation_attempt_def)

section \<open>Checking an assertion\<close>


lemma keyed_empty: "keyed Map.empty"
  by (simp add: keyed_def)

lemma keyed_Add: "keyed m \<Longrightarrow> keyed (snd (MemoryAssociationStore_Add m a))"
  by (auto simp: keyed_def MemoryAssociationStore_Add_def MemoryAssociationStore_Get_def Let_def
      split: option.splits if_splits)

lemma keyed_Delete: "keyed m \<Longrightarrow> keyed (snd (MemoryAssociationStore_Delete m e h))"
  by (auto simp: keyed_def MemoryAssociationStore_Delete_def MemoryAssociationStore_Get_def
      split: option.splits if_splits)

lemma keyed_Get:
  "keyed m \<Longrightarrow> MemoryAssociationStore_Get m e h = Inr (Some a) \<Longrightarrow> Endpoint a = e \<and> Handle a = h"
  by (auto simp: keyed_def MemoryAssociationStore_Get_def split: option.splits)

lemma Get_Delete_same:
  "MemoryAssociationStore_Get (snd (MemoryAssociationStore_Delete m e h)) e h = Inr None"
  by (auto simp: MemoryAssociationStore_Delete_def MemoryAssociationStore_Get_def
      split: option.splits)

lemma Get_Delete_other:
  "(e', h') \<noteq> (e, h) \<Longrightarrow>
   MemoryAssociationStore_Get (snd (MemoryAssociationStore_Delete m e h)) e' h' =
   MemoryAssociationStore_Get m e' h'"
  by (auto simp: MemoryAssociationStore_Delete_def MemoryAssociationStore_Get_def
      split: option.splits)

lemma Get_cases:
  "MemoryAssociationStore_Get m e h = Inr None \<or> (\<exists>a. MemoryAssociationStore_Get m e h = Inr (Some a))"
  by (auto simp: MemoryAssociationStore_Get_def split: option.splits)

lemma checkAuthentication_absent:
  "Associations H = None \<Longrightarrow>
   MemoryAssociationStore_Get (dflt w) [] (mapIndex p ''assoc_handle'') = Inr None \<Longrightarrow>
   checkAuthentication L H p w = (Inr [''ns'' \<mapsto> Namespace, ''is_valid'' \<mapsto> ''false''], w)"
  by (simp add: checkAuthentication_def store_Get_def)

lemma checkAuthentication_found:
  "Associations H = None \<Longrightarrow>
   MemoryAssociationStore_Get (dflt w) [] (mapIndex p ''assoc_handle'') = Inr (Some a) \<Longrightarrow>
   checkAuthentication L H p w =
     (case sign L a p (Split (CHR '','') (mapIndex p ''signed'')) of
        Inl err \<Rightarrow> (Inl err, w)
      | Inr sg \<Rightarrow>
          if mapIndex p ''sig'' \<noteq> sg
          then (Inr [''ns'' \<mapsto> Namespace, ''is_valid'' \<mapsto> ''false''], w)
          else (Inr [''ns'' \<mapsto> Namespace, ''is_valid'' \<mapsto> ''true''],
                w\<lparr>dflt := snd (MemoryAssociationStore_Delete (dflt w) [] (Handle a))\<rparr>))"
  by (simp add: checkAuthentication_def store_Get_def store_Delete_def split: sum.splits prod.splits)

text \<open>
  C2. With the in-memory default store, \<open>checkAuthentication\<close> reports no error for
  absence or mismatch. When no association is stored under the empty endpoint and
  \<open>assoc_handle\<close>, the answer is \<open>ns\<close> and \<open>is_valid: false\<close> and the world is
  unchanged. When one is found and the signature recomputed over the \<open>signed\<close> list
  differs from \<open>sig\<close>, the answer is the same and the world is unchanged. When the
  signature matches (in a map that \<open>Add\<close> built), the answer is \<open>is_valid: true\<close>, the
  association is deleted and nothing else changes, and the same call made again answers
  \<open>is_valid: false\<close>. The only error is the unsupported type of a stored association.
\<close>

theorem checkAuthentication_spec:
  "Associations H = None \<longrightarrow>
   (MemoryAssociationStore_Get (dflt w) [] (mapIndex p ''assoc_handle'') = Inr None \<longrightarrow>
      checkAuthentication L H p w = (Inr [''ns'' \<mapsto> Namespace, ''is_valid'' \<mapsto> ''false''], w)) \<and>
   (\<forall>a sg. MemoryAssociationStore_Get (dflt w) [] (mapIndex p ''assoc_handle'') = Inr (Some a) \<and>
      sign L a p (Split (CHR '','') (mapIndex p ''signed'')) = Inr sg \<and> sg \<noteq> mapIndex p ''sig'' \<longrightarrow>
      checkAuthentication L H p w = (Inr [''ns'' \<mapsto> Namespace, ''is_valid'' \<mapsto> ''false''], w)) \<and>
   (\<forall>a. MemoryAssociationStore_Get (dflt w) [] (mapIndex p ''assoc_handle'') = Inr (Some a) \<and>
      sign L a p (Split (CHR '','') (mapIndex p ''signed'')) = Inr (mapIndex p ''sig'') \<and>
      keyed (dflt w) \<longrightarrow>
      (\<exists>m'. checkAuthentication L H p w =
               (Inr [''ns'' \<mapsto> Namespace, ''is_valid'' \<mapsto> ''true''], w\<lparr>dflt := m'\<rparr>) \<and>
            MemoryAssociationStore_Get m' [] (mapIndex p ''assoc_handle'') = Inr None \<and>
            (\<forall>e h. (e, h) \<noteq> ([], mapIndex p ''assoc_handle'') \<longrightarrow>
               MemoryAssociationStore_Get m' e h = MemoryAssociationStore_Get (dflt w) e h) \<and>
            checkAuthentication L H p (w\<lparr>dflt := m'\<rparr>) =
               (Inr [''ns'' \<mapsto> Namespace, ''is_valid'' \<mapsto> ''false''], w\<lparr>dflt := m'\<rparr>))) \<and>
   (isl (fst (checkAuthentication L H p w)) \<longleftrightarrow>
      (\<exists>a. MemoryAssociationStore_Get (dflt w) [] (mapIndex p ''assoc_handle'') = Inr (Some a) \<and>
           Type a \<noteq> ''HMAC-SHA1'' \<and> Type a \<noteq> ''HMAC-SHA256''))"
proof (intro impI conjI allI)
  assume H: "Associations H = None"
  let ?h = "mapIndex p ''assoc_handle''"
  let ?signed = "Split (CHR '','') (mapIndex p ''signed'')"
  show "checkAuthentication L H p w = (Inr [''ns'' \<mapsto> Namespace, ''is_valid'' \<mapsto> ''false''], w)"
    if "MemoryAssociationStore_Get (dflt w) [] ?h = Inr None"
    using checkAuthentication_absent [OF H that] .
  show "checkAuthentication L H p w = (Inr [''ns'' \<mapsto> Namespace, ''is_valid'' \<mapsto> ''false''], w)"
    if "MemoryAssociationStore_Get (dflt w) [] ?h = Inr (Some a) \<and>
      sign L a p ?signed = Inr sg \<and> sg \<noteq> mapIndex p ''sig''" for a sg
    using checkAuthentication_found [OF H, of w p a L] that by auto
  show "\<exists>m'. checkAuthentication L H p w =
               (Inr [''ns'' \<mapsto> Namespace, ''is_valid'' \<mapsto> ''true''], w\<lparr>dflt := m'\<rparr>) \<and>
            MemoryAssociationStore_Get m' [] ?h = Inr None \<and>
            (\<forall>e h. (e, h) \<noteq> ([], ?h) \<longrightarrow>
               MemoryAssociationStore_Get m' e h = MemoryAssociationStore_Get (dflt w) e h) \<and>
            checkAuthentication L H p (w\<lparr>dflt := m'\<rparr>) =
               (Inr [''ns'' \<mapsto> Namespace, ''is_valid'' \<mapsto> ''false''], w\<lparr>dflt := m'\<rparr>)"
    if h: "MemoryAssociationStore_Get (dflt w) [] ?h = Inr (Some a) \<and>
      sign L a p ?signed = Inr (mapIndex p ''sig'') \<and> keyed (dflt w)" for a
  proof -
    let ?m' = "snd (MemoryAssociationStore_Delete (dflt w) [] ?h)"
    have ha: "Handle a = ?h" using keyed_Get [of "dflt w" "[]" ?h a] h by simp
    have 1: "checkAuthentication L H p w =
               (Inr [''ns'' \<mapsto> Namespace, ''is_valid'' \<mapsto> ''true''], w\<lparr>dflt := ?m'\<rparr>)"
      using checkAuthentication_found [OF H, of w p a L] h ha by simp
    have 2: "MemoryAssociationStore_Get ?m' [] ?h = Inr None"
      by (rule Get_Delete_same)
    have 3: "\<forall>e h. (e, h) \<noteq> ([], ?h) \<longrightarrow>
               MemoryAssociationStore_Get ?m' e h = MemoryAssociationStore_Get (dflt w) e h"
      using Get_Delete_other by blast
    have 4: "checkAuthentication L H p (w\<lparr>dflt := ?m'\<rparr>) =
               (Inr [''ns'' \<mapsto> Namespace, ''is_valid'' \<mapsto> ''false''], w\<lparr>dflt := ?m'\<rparr>)"
      using checkAuthentication_absent [OF H, of "w\<lparr>dflt := ?m'\<rparr>" p L] 2 by simp
    from 1 2 3 4 show ?thesis by blast
  qed
  show "isl (fst (checkAuthentication L H p w)) \<longleftrightarrow>
      (\<exists>a. MemoryAssociationStore_Get (dflt w) [] ?h = Inr (Some a) \<and>
           Type a \<noteq> ''HMAC-SHA1'' \<and> Type a \<noteq> ''HMAC-SHA256'')"
  proof (rule disjE [OF Get_cases [of "dflt w" "[]" ?h]])
    assume "MemoryAssociationStore_Get (dflt w) [] ?h = Inr None"
    then show ?thesis using checkAuthentication_absent [OF H, of w p L] by simp
  next
    assume "\<exists>a. MemoryAssociationStore_Get (dflt w) [] ?h = Inr (Some a)"
    then obtain a where a: "MemoryAssociationStore_Get (dflt w) [] ?h = Inr (Some a)" by blast
    show ?thesis
      using checkAuthentication_found [OF H a, of L] a
      by (auto simp: sign_def hmacSHA1_def hmacSHA256_def)
  qed
qed

theorem checkAuthentication_spec_witness:
  "keyed [[] \<mapsto> [''h1'' \<mapsto>
                \<lparr>Endpoint = [], Handle = ''h1'', Secret = ''k'', Type = ''HMAC-SHA256'', Expires = 7\<rparr>]] \<and>
   fst (checkAuthentication testLib \<lparr>Login = None, Associations = None\<rparr>
     [''assoc_handle'' \<mapsto> ''h1'', ''signed'' \<mapsto> ''mode,x'', ''mode'' \<mapsto> ''id_res'',
      ''sig'' \<mapsto> ''2k/mode:id_res\<newline>x:\<newline>'']
     \<lparr>dflt = [[] \<mapsto> [''h1'' \<mapsto>
                \<lparr>Endpoint = [], Handle = ''h1'', Secret = ''k'', Type = ''HMAC-SHA256'', Expires = 7\<rparr>]],
      plug = (), entropy = [], clock = (\<lambda>n. 0), ticks = 0, responses = []\<rparr>)
   = Inr [''ns'' \<mapsto> Namespace, ''is_valid'' \<mapsto> ''true''] \<and>
   MemoryAssociationStore_Get
     (dflt (snd (checkAuthentication testLib \<lparr>Login = None, Associations = None\<rparr>
     [''assoc_handle'' \<mapsto> ''h1'', ''signed'' \<mapsto> ''mode,x'', ''mode'' \<mapsto> ''id_res'',
      ''sig'' \<mapsto> ''2k/mode:id_res\<newline>x:\<newline>'']
     \<lparr>dflt = [[] \<mapsto> [''h1'' \<mapsto>
                \<lparr>Endpoint = [], Handle = ''h1'', Secret = ''k'', Type = ''HMAC-SHA256'', Expires = 7\<rparr>]],
      plug = (), entropy = [], clock = (\<lambda>n. 0), ticks = 0, responses = []\<rparr>))) [] ''h1''
   = Inr None \<and>
   fst (checkAuthentication testLib \<lparr>Login = None, Associations = None\<rparr>
     [''assoc_handle'' \<mapsto> ''h1'', ''signed'' \<mapsto> ''mode,x'', ''mode'' \<mapsto> ''id_res'',
      ''sig'' \<mapsto> ''2k/mode:id_res\<newline>x:\<newline>'']
     (snd (checkAuthentication testLib \<lparr>Login = None, Associations = None\<rparr>
     [''assoc_handle'' \<mapsto> ''h1'', ''signed'' \<mapsto> ''mode,x'', ''mode'' \<mapsto> ''id_res'',
      ''sig'' \<mapsto> ''2k/mode:id_res\<newline>x:\<newline>'']
     \<lparr>dflt = [[] \<mapsto> [''h1'' \<mapsto>
                \<lparr>Endpoint = [], Handle = ''h1'', Secret = ''k'', Type = ''HMAC-SHA256'', Expires = 7\<rparr>]],
      plug = (), entropy = [], clock = (\<lambda>n. 0), ticks = 0, responses = []\<rparr>)))
   = Inr [''ns'' \<mapsto> Namespace, ''is_valid'' \<mapsto> ''false'']"
proof -
  have k: "keyed [[] \<mapsto> [''h1'' \<mapsto>
                \<lparr>Endpoint = [], Handle = ''h1'', Secret = ''k'', Type = ''HMAC-SHA256'', Expires = 7\<rparr>]]"
    by (auto simp: keyed_def split: if_splits)
  have r: "fst (checkAuthentication testLib \<lparr>Login = None, Associations = None\<rparr>
     [''assoc_handle'' \<mapsto> ''h1'', ''signed'' \<mapsto> ''mode,x'', ''mode'' \<mapsto> ''id_res'',
      ''sig'' \<mapsto> ''2k/mode:id_res\<newline>x:\<newline>'']
     \<lparr>dflt = [[] \<mapsto> [''h1'' \<mapsto>
                \<lparr>Endpoint = [], Handle = ''h1'', Secret = ''k'', Type = ''HMAC-SHA256'', Expires = 7\<rparr>]],
      plug = (), entropy = [], clock = (\<lambda>n. 0), ticks = 0, responses = []\<rparr>)
   = Inr [''ns'' \<mapsto> Namespace, ''is_valid'' \<mapsto> ''true''] \<and>
   MemoryAssociationStore_Get
     (dflt (snd (checkAuthentication testLib \<lparr>Login = None, Associations = None\<rparr>
     [''assoc_handle'' \<mapsto> ''h1'', ''signed'' \<mapsto> ''mode,x'', ''mode'' \<mapsto> ''id_res'',
      ''sig'' \<mapsto> ''2k/mode:id_res\<newline>x:\<newline>'']
     \<lparr>dflt = [[] \<mapsto> [''h1'' \<mapsto>
                \<lparr>Endpoint = [], Handle = ''h1'', Secret = ''k'', Type = ''HMAC-SHA256'', Expires = 7\<rparr>]],
      plug = (), entropy = [], clock = (\<lambda>n. 0), ticks = 0, responses = []\<rparr>))) [] ''h1''
   = Inr None \<and>
   fst (checkAuthentication testLib \<lparr>Login = None, Associations = None\<rparr>
     [''assoc_handle'' \<mapsto> ''h1'', ''signed'' \<mapsto> ''mode,x'', ''mode'' \<mapsto> ''id_res'',
      ''sig'' \<mapsto> ''2k/mode:id_res\<newline>x:\<newline>'']
     (snd (checkAuthentication testLib \<lparr>Login = None, Associations = None\<rparr>
     [''assoc_handle'' \<mapsto> ''h1'', ''signed'' \<mapsto> ''mode,x'', ''mode'' \<mapsto> ''id_res'',
      ''sig'' \<mapsto> ''2k/mode:id_res\<newline>x:\<newline>'']
     \<lparr>dflt = [[] \<mapsto> [''h1'' \<mapsto>
                \<lparr>Endpoint = [], Handle = ''h1'', Secret = ''k'', Type = ''HMAC-SHA256'', Expires = 7\<rparr>]],
      plug = (), entropy = [], clock = (\<lambda>n. 0), ticks = 0, responses = []\<rparr>)))
   = Inr [''ns'' \<mapsto> Namespace, ''is_valid'' \<mapsto> ''false'']"
    using checkAuthentication_spec [of "\<lparr>Login = None, Associations = None\<rparr>"
       "\<lparr>dflt = [[] \<mapsto> [''h1'' \<mapsto>
                  \<lparr>Endpoint = [], Handle = ''h1'', Secret = ''k'', Type = ''HMAC-SHA256'', Expires = 7\<rparr>]],
        plug = (), entropy = [], clock = (\<lambda>n. 0), ticks = 0, responses = []\<rparr>"
       "[''assoc_handle'' \<mapsto> ''h1'', ''signed'' \<mapsto> ''mode,x'', ''mode'' \<mapsto> ''id_res'',
        ''sig'' \<mapsto> ''2k/mode:id_res\<newline>x:\<newline>'']" testLib]
    by (simp add: checkAuthentication_def store_Get_def store_Delete_def
        MemoryAssociationStore_Get_def MemoryAssociationStore_Delete_def mapIndex_def
        sign_message hmacSHA1_def hmacSHA256_def testLib_def)
  from k r show ?thesis by (rule conjI)
qed

section \<open>Getting or creating an association\<close>


lemma store_Add_entropy: "entropy (snd (store_Add S a w)) = entropy w"
  by (auto simp: store_Add_def split: option.splits prod.splits)

lemma saveAssociation_loop_fields:
  "saveAssociation_loop L S n a w = ((None, a'), w') \<Longrightarrow>
   Endpoint a' = Endpoint a \<and> Secret a' = Secret a \<and> Type a' = Type a \<and> Expires a' = Expires a"
proof (induction n arbitrary: a w)
  case 0
  then show ?case by simp
next
  case (Suc n)
  show ?case
  proof (cases "length (entropy w) < 16")
    case True
    with Suc.prems show ?thesis by (simp add: rand_Read_def)
  next
    case False
    let ?a1 = "a\<lparr>Handle := ascii85_Encode L (take 16 (entropy w))\<rparr>"
    let ?w1 = "w\<lparr>entropy := drop 16 (entropy w)\<rparr>"
    obtain r w2 where r: "store_Add S ?a1 ?w1 = (r, w2)" by (cases "store_Add S ?a1 ?w1")
    show ?thesis
    proof (cases "r = Some ErrDuplicateAssociation")
      case True
      then have "saveAssociation_loop L S n ?a1 w2 = ((None, a'), w')"
        using Suc.prems False r by (simp add: rand_Read_def)
      from Suc.IH [OF this] show ?thesis by simp
    next
      case nd: False
      then have "a' = ?a1" using Suc.prems False r
        by (cases r) (auto simp: rand_Read_def split: if_splits)
      then show ?thesis by simp
    qed
  qed
qed

lemma getAssociation_new_props:
  "getAssociation_new L S w = (Inr a, w') \<Longrightarrow>
   128 \<le> length (entropy w) \<and> Secret a = take 128 (entropy w) \<and> length (Secret a) = 128 \<and>
   Type a = ''HMAC-SHA256'' \<and> Expires a = clock w (ticks w) + 60000000000 \<and> Endpoint a = []"
proof -
  assume h: "getAssociation_new L S w = (Inr a, w')"
  show ?thesis
  proof (cases "length (entropy w) < 128")
    case True
    with h show ?thesis by (simp add: getAssociation_new_def rand_Read_def)
  next
    case False
    let ?a0 = "\<lparr>Endpoint = [], Handle = [], Secret = take 128 (entropy w), Type = hmacSHA256,
                 Expires = clock w (ticks w) + Minute\<rparr>"
    let ?w2 = "w\<lparr>entropy := drop 128 (entropy w), ticks := Suc (ticks w)\<rparr>"
    have "saveAssociation L S ?a0 ?w2 = ((None, a), w')"
      using h False
      by (auto simp: getAssociation_new_def rand_Read_def time_Now_def
          split: prod.splits option.splits)
    then have "saveAssociation_loop L S 10 ?a0 ?w2 = ((None, a), w')"
      by (simp add: saveAssociation_def)
    from saveAssociation_loop_fields [OF this] False show ?thesis
      by (simp add: hmacSHA256_def Minute_def)
  qed
qed

lemma getAssociation_new_stored:
  "getAssociation_new L None w = (Inr a, w') \<Longrightarrow>
   MemoryAssociationStore_Get (dflt w) [] (Handle a) = Inr None \<and>
   MemoryAssociationStore_Get (dflt w') [] (Handle a) = Inr (Some a)"
proof -
  assume h: "getAssociation_new L None w = (Inr a, w')"
  show ?thesis
  proof (cases "length (entropy w) < 128")
    case True
    with h show ?thesis by (simp add: getAssociation_new_def rand_Read_def)
  next
    case False
    let ?a0 = "\<lparr>Endpoint = [], Handle = [], Secret = take 128 (entropy w), Type = hmacSHA256,
                 Expires = clock w (ticks w) + Minute\<rparr>"
    let ?w2 = "w\<lparr>entropy := drop 128 (entropy w), ticks := Suc (ticks w)\<rparr>"
    have "saveAssociation L None ?a0 ?w2 = ((None, a), w')"
      using h False
      by (auto simp: getAssociation_new_def rand_Read_def time_Now_def
          split: prod.splits option.splits)
    then have "saveAssociation_loop L None 10 ?a0 ?w2 = ((None, a), w')"
      by (simp add: saveAssociation_def)
    from saveAssociation_loop_memory [OF this] show ?thesis by simp
  qed
qed

text \<open>
  C4, as amended. With the in-memory default store, for a requested handle that is not
  empty: a stored association for the empty endpoint and that handle is returned when the
  time read is strictly before its \<open>Expires\<close>, and only the clock has moved; when its
  expiry has passed it is deleted and the outcome is that of making a new association in
  the world without it. With an empty handle, or with none stored under it, nothing is
  looked up or deleted and a new association is made. Every new association that is
  returned has the next 128 random bytes as its secret, the type HMAC-SHA256 and an
  expiry exactly one minute after the time read at its creation, and is stored under a
  handle that was not present; making it fails when the random source fails or the ten
  handles all collide.
\<close>

theorem getAssociation_spec:
  "Associations H = None \<longrightarrow>
   (\<forall>a. requestHandle \<noteq> [] \<and>
        MemoryAssociationStore_Get (dflt w) [] requestHandle = Inr (Some a) \<and>
        clock w (ticks w) < Expires a \<longrightarrow>
        getAssociation L H requestHandle nonce w = (Inr a, w\<lparr>ticks := Suc (ticks w)\<rparr>)) \<and>
   (\<forall>a. requestHandle \<noteq> [] \<and>
        MemoryAssociationStore_Get (dflt w) [] requestHandle = Inr (Some a) \<and>
        \<not> clock w (ticks w) < Expires a \<longrightarrow>
        getAssociation L H requestHandle nonce w =
          getAssociation_new L None
            (w\<lparr>ticks := Suc (ticks w),
               dflt := snd (MemoryAssociationStore_Delete (dflt w) [] requestHandle)\<rparr>) \<and>
        MemoryAssociationStore_Get
          (snd (MemoryAssociationStore_Delete (dflt w) [] requestHandle)) [] requestHandle = Inr None) \<and>
   (requestHandle = [] \<or> MemoryAssociationStore_Get (dflt w) [] requestHandle = Inr None \<longrightarrow>
        getAssociation L H requestHandle nonce w = getAssociation_new L None w) \<and>
   (\<forall>v a v'. getAssociation_new L None v = (Inr a, v') \<longrightarrow>
        length (Secret a) = 128 \<and> Secret a = take 128 (entropy v) \<and>
        Type a = ''HMAC-SHA256'' \<and> Expires a = clock v (ticks v) + 60000000000 \<and>
        MemoryAssociationStore_Get (dflt v) [] (Handle a) = Inr None \<and>
        MemoryAssociationStore_Get (dflt v') [] (Handle a) = Inr (Some a))"
proof (intro impI conjI allI)
  assume H: "Associations H = None"
  show "getAssociation L H requestHandle nonce w = (Inr a, w\<lparr>ticks := Suc (ticks w)\<rparr>)"
    if "requestHandle \<noteq> [] \<and>
        MemoryAssociationStore_Get (dflt w) [] requestHandle = Inr (Some a) \<and>
        clock w (ticks w) < Expires a" for a
    using that H by (simp add: getAssociation_def store_Get_def time_Now_def)
  show "getAssociation L H requestHandle nonce w =
          getAssociation_new L None
            (w\<lparr>ticks := Suc (ticks w),
               dflt := snd (MemoryAssociationStore_Delete (dflt w) [] requestHandle)\<rparr>)"
    if "requestHandle \<noteq> [] \<and>
        MemoryAssociationStore_Get (dflt w) [] requestHandle = Inr (Some a) \<and>
        \<not> clock w (ticks w) < Expires a" for a
    using that H
    by (simp add: getAssociation_def store_Get_def store_Delete_def time_Now_def split: prod.splits)
  show "MemoryAssociationStore_Get
          (snd (MemoryAssociationStore_Delete (dflt w) [] requestHandle)) [] requestHandle = Inr None"
    by (rule Get_Delete_same)
  show "getAssociation L H requestHandle nonce w = getAssociation_new L None w"
    if "requestHandle = [] \<or> MemoryAssociationStore_Get (dflt w) [] requestHandle = Inr None"
    using that H by (auto simp: getAssociation_def store_Get_def)
  show "length (Secret a) = 128" "Secret a = take 128 (entropy v)" "Type a = ''HMAC-SHA256''"
     "Expires a = clock v (ticks v) + 60000000000"
    if "getAssociation_new L None v = (Inr a, v')" for v v' :: "'b world" and a
    using getAssociation_new_props [OF that] by simp_all
  show "MemoryAssociationStore_Get (dflt v) [] (Handle a) = Inr None"
     "MemoryAssociationStore_Get (dflt v') [] (Handle a) = Inr (Some a)"
    if "getAssociation_new L None v = (Inr a, v')" for v v' :: "'b world" and a
    using getAssociation_new_stored [OF that] by simp_all
qed


theorem getAssociation_spec_witness:
  "getAssociation testLib \<lparr>Login = None, Associations = None\<rparr> ''h1'' ''n''
     \<lparr>dflt = [[] \<mapsto> [''h1'' \<mapsto>
                \<lparr>Endpoint = [], Handle = ''h1'', Secret = ''k'', Type = ''HMAC-SHA256'', Expires = 7\<rparr>]],
      plug = (), entropy = [], clock = (\<lambda>n. 5), ticks = 0, responses = []\<rparr>
   = (Inr \<lparr>Endpoint = [], Handle = ''h1'', Secret = ''k'', Type = ''HMAC-SHA256'', Expires = 7\<rparr>,
      \<lparr>dflt = [[] \<mapsto> [''h1'' \<mapsto>
                \<lparr>Endpoint = [], Handle = ''h1'', Secret = ''k'', Type = ''HMAC-SHA256'', Expires = 7\<rparr>]],
      plug = (), entropy = [], clock = (\<lambda>n. 5), ticks = Suc 0, responses = []\<rparr>) \<and>
   fst (getAssociation testLib \<lparr>Login = None, Associations = None\<rparr> ''h1'' ''n''
     \<lparr>dflt = [[] \<mapsto> [''h1'' \<mapsto>
                \<lparr>Endpoint = [], Handle = ''h1'', Secret = ''k'', Type = ''HMAC-SHA256'', Expires = 7\<rparr>]],
      plug = (), entropy = replicate 144 (CHR ''r''), clock = (\<lambda>n. 7), ticks = 0, responses = []\<rparr>)
   = Inr \<lparr>Endpoint = [], Handle = replicate 16 (CHR ''r''), Secret = replicate 128 (CHR ''r''),
          Type = ''HMAC-SHA256'', Expires = 60000000007\<rparr>"
  using getAssociation_spec [of "\<lparr>Login = None, Associations = None\<rparr>" "''h1''"
     "\<lparr>dflt = [[] \<mapsto> [''h1'' \<mapsto>
                \<lparr>Endpoint = [], Handle = ''h1'', Secret = ''k'', Type = ''HMAC-SHA256'', Expires = 7\<rparr>]],
      plug = (), entropy = [], clock = (\<lambda>n. 5), ticks = 0, responses = []\<rparr>" testLib "''n''"]
  by (simp add: getAssociation_def getAssociation_new_def store_Get_def store_Delete_def
      store_Add_def MemoryAssociationStore_Get_def MemoryAssociationStore_Delete_def
      MemoryAssociationStore_Add_def time_Now_def rand_Read_def saveAssociation_def
      numeral_eq_Suc testLib_def hmacSHA256_def Minute_def)

text \<open>
  C4 as stated fails at the empty handle: an association stored under the empty endpoint
  and the empty handle, not yet expired, is not returned; a new one is made.
\<close>

theorem getAssociation_empty_handle_counterexample:
  "MemoryAssociationStore_Get
     [[] \<mapsto> [[] \<mapsto> \<lparr>Endpoint = [], Handle = [], Secret = ''k'', Type = ''HMAC-SHA256'', Expires = 7\<rparr>]]
     [] []
   = Inr (Some \<lparr>Endpoint = [], Handle = [], Secret = ''k'', Type = ''HMAC-SHA256'', Expires = 7\<rparr>) \<and>
   (5::int) < 7 \<and>
   fst (getAssociation testLib \<lparr>Login = None, Associations = None\<rparr> [] ''n''
     \<lparr>dflt = [[] \<mapsto> [[] \<mapsto>
                \<lparr>Endpoint = [], Handle = [], Secret = ''k'', Type = ''HMAC-SHA256'', Expires = 7\<rparr>]],
      plug = (), entropy = replicate 144 (CHR ''r''), clock = (\<lambda>n. 5), ticks = 0, responses = []\<rparr>)
   = Inr \<lparr>Endpoint = [], Handle = replicate 16 (CHR ''r''), Secret = replicate 128 (CHR ''r''),
          Type = ''HMAC-SHA256'', Expires = 60000000005\<rparr>"
  by (simp add: getAssociation_def getAssociation_new_def store_Get_def store_Delete_def
      store_Add_def MemoryAssociationStore_Get_def MemoryAssociationStore_Delete_def
      MemoryAssociationStore_Add_def time_Now_def rand_Read_def saveAssociation_def
      numeral_eq_Suc testLib_def hmacSHA256_def Minute_def)

section \<open>Encoding extensions\<close>


lemma not_banned_ext: "\<not> bannedPrefixes (''ext'' @ s)"
  by (simp add: bannedPrefixes_def)

lemma encodeExtensions_prefix_keep:
  "\<not> bannedPrefixes d \<Longrightarrow> d \<notin> set used \<Longrightarrow> encodeExtensions_prefix used d i = (d, i)"
  by (subst encodeExtensions_prefix.simps) simp

lemma encodeExtensions_prefix_fresh:
  "bannedPrefixes d \<or> d \<in> set used \<Longrightarrow>
   \<exists>n\<ge>i. encodeExtensions_prefix used d i = (''ext'' @ Itoa n, Suc n) \<and>
          ''ext'' @ Itoa n \<notin> set used \<and> (\<forall>m. i \<le> m \<and> m < n \<longrightarrow> ''ext'' @ Itoa m \<in> set used)"
proof (induction used d i rule: encodeExtensions_prefix.induct)
  case (1 used prefix i)
  have u: "encodeExtensions_prefix used prefix i = encodeExtensions_prefix used (''ext'' @ Itoa i) (Suc i)"
    using "1.prems" by (subst encodeExtensions_prefix.simps) simp
  show ?case
  proof (cases "''ext'' @ Itoa i \<in> set used")
    case True
    from "1.IH" [OF "1.prems"] True obtain n where n: "Suc i \<le> n"
      "encodeExtensions_prefix used (''ext'' @ Itoa i) (Suc i) = (''ext'' @ Itoa n, Suc n)"
      "''ext'' @ Itoa n \<notin> set used"
      "\<forall>m. Suc i \<le> m \<and> m < n \<longrightarrow> ''ext'' @ Itoa m \<in> set used"
      by blast
    have "\<forall>m. i \<le> m \<and> m < n \<longrightarrow> ''ext'' @ Itoa m \<in> set used"
    proof (intro allI impI)
      fix m assume "i \<le> m \<and> m < n"
      then show "''ext'' @ Itoa m \<in> set used"
        using True n(4) by (cases "m = i") auto
    qed
    with n u show ?thesis by (intro exI [of _ n]) auto
  next
    case False
    then have "encodeExtensions_prefix used (''ext'' @ Itoa i) (Suc i) = (''ext'' @ Itoa i, Suc i)"
      by (intro encodeExtensions_prefix_keep not_banned_ext)
    with u False show ?thesis by (intro exI [of _ i]) auto
  qed
qed

text \<open>The state of the loop after some extensions, and what holds of it.\<close>

lemma encodeExtension_step:
  assumes inv: "\<forall>m<i. ''ext'' @ Itoa m \<in> set used"
    and st: "encodeExtension (i, used, p, signed) (e, ks) = (i', used', p', signed')"
  shows "\<exists>q. used' = q # used \<and> \<not> bannedPrefixes q \<and> q \<notin> set used \<and>
             (\<forall>m<i'. ''ext'' @ Itoa m \<in> set used') \<and>
             signed' = signed @ map (\<lambda>k. q @ ''.'' @ k) ks \<and>
             (\<not> bannedPrefixes (Prefix e) \<and> Prefix e \<notin> set used \<longrightarrow> q = Prefix e) \<and>
             (bannedPrefixes (Prefix e) \<or> Prefix e \<in> set used \<longrightarrow>
                (\<exists>n. q = ''ext'' @ Itoa n \<and> (\<forall>m<n. ''ext'' @ Itoa m \<in> set used)))"
proof (cases "bannedPrefixes (Prefix e) \<or> Prefix e \<in> set used")
  case True
  from encodeExtensions_prefix_fresh [OF True, of i] obtain n where n: "i \<le> n"
    "encodeExtensions_prefix used (Prefix e) i = (''ext'' @ Itoa n, Suc n)"
    "''ext'' @ Itoa n \<notin> set used"
    "\<forall>m. i \<le> m \<and> m < n \<longrightarrow> ''ext'' @ Itoa m \<in> set used"
    by blast
  have all: "\<forall>m<n. ''ext'' @ Itoa m \<in> set used"
  proof (intro allI impI)
    fix m assume "m < n"
    then show "''ext'' @ Itoa m \<in> set used"
      using inv n(4) by (cases "m < i") auto
  qed
  have "used' = (''ext'' @ Itoa n) # used" "i' = Suc n"
    "signed' = signed @ map (\<lambda>k. (''ext'' @ Itoa n) @ ''.'' @ k) ks"
    using st n(2) by (simp_all add: encodeExtension_def)
  moreover have "\<forall>m<Suc n. ''ext'' @ Itoa m \<in> set ((''ext'' @ Itoa n) # used)"
    using all by (auto simp: less_Suc_eq)
  ultimately show ?thesis
    using True n(3) all not_banned_ext [of "Itoa n"]
    by (intro exI [of _ "''ext'' @ Itoa n"]) auto
next
  case False
  then have k: "encodeExtensions_prefix used (Prefix e) i = (Prefix e, i)"
    by (intro encodeExtensions_prefix_keep) auto
  have "used' = Prefix e # used" "i' = i" "signed' = signed @ map (\<lambda>k. Prefix e @ ''.'' @ k) ks"
    using st k by (simp_all add: encodeExtension_def)
  then show ?thesis using False inv by (intro exI [of _ "Prefix e"]) auto
qed


lemma encodeExtensions_loop:
  "foldl encodeExtension (0, [], p, []) exts = (i, used, p', signed) \<Longrightarrow>
   (\<forall>m<i. ''ext'' @ Itoa m \<in> set used) \<and> length used = length exts \<and> distinct used \<and>
   (\<forall>q\<in>set used. \<not> bannedPrefixes q) \<and>
   signed = concat (map (\<lambda>(q, e, ks). map (\<lambda>k. q @ ''.'' @ k) ks) (zip (rev used) exts)) \<and>
   (\<forall>k<length exts.
      (\<not> bannedPrefixes (Prefix (fst (exts ! k))) \<and> Prefix (fst (exts ! k)) \<notin> set (take k (rev used))
         \<longrightarrow> rev used ! k = Prefix (fst (exts ! k))) \<and>
      (bannedPrefixes (Prefix (fst (exts ! k))) \<or> Prefix (fst (exts ! k)) \<in> set (take k (rev used))
         \<longrightarrow> (\<exists>n. rev used ! k = ''ext'' @ Itoa n \<and> ''ext'' @ Itoa n \<notin> set (take k (rev used)) \<and>
                  (\<forall>m<n. ''ext'' @ Itoa m \<in> set (take k (rev used))))))"
proof (induction exts arbitrary: i used p' signed rule: rev_induct)
  case Nil
  then show ?case by auto
next
  case (snoc eo exts)
  obtain i0 used0 p0 signed0 where s0: "foldl encodeExtension (0, [], p, []) exts = (i0, used0, p0, signed0)"
    by (cases "foldl encodeExtension (0, [], p, []) exts") auto
  note ih = snoc.IH [OF s0]
  obtain e ks where eo: "eo = (e, ks)" by (cases eo)
  have st: "encodeExtension (i0, used0, p0, signed0) (e, ks) = (i, used, p', signed)"
    using snoc.prems s0 eo by simp
  from ih have inv: "\<forall>m<i0. ''ext'' @ Itoa m \<in> set used0" by blast
  from encodeExtension_step [OF inv st] obtain q where q:
    "used = q # used0" "\<not> bannedPrefixes q" "q \<notin> set used0"
    "\<forall>m<i. ''ext'' @ Itoa m \<in> set used"
    "signed = signed0 @ map (\<lambda>k. q @ ''.'' @ k) ks"
    "\<not> bannedPrefixes (Prefix e) \<and> Prefix e \<notin> set used0 \<longrightarrow> q = Prefix e"
    "bannedPrefixes (Prefix e) \<or> Prefix e \<in> set used0 \<longrightarrow>
       (\<exists>n. q = ''ext'' @ Itoa n \<and> (\<forall>m<n. ''ext'' @ Itoa m \<in> set used0))"
    by blast
  have len: "length used0 = length exts" using ih by blast
  have r: "rev used = rev used0 @ [q]" using q(1) by simp
  have 1: "\<forall>m<i. ''ext'' @ Itoa m \<in> set used" by (rule q(4))
  have 2: "length used = length (exts @ [eo])" using q(1) len by simp
  have 3: "distinct used" using q(1) q(3) ih by simp
  have 4: "\<forall>q\<in>set used. \<not> bannedPrefixes q" using q(1) q(2) ih by simp
  have 5: "signed = concat (map (\<lambda>(q, e, ks). map (\<lambda>k. q @ ''.'' @ k) ks) (zip (rev used) (exts @ [eo])))"
    using ih q(5) len by (simp add: r eo)
  have 6: "(\<not> bannedPrefixes (Prefix (fst ((exts @ [eo]) ! k))) \<and>
            Prefix (fst ((exts @ [eo]) ! k)) \<notin> set (take k (rev used))
              \<longrightarrow> rev used ! k = Prefix (fst ((exts @ [eo]) ! k))) \<and>
           (bannedPrefixes (Prefix (fst ((exts @ [eo]) ! k))) \<or>
            Prefix (fst ((exts @ [eo]) ! k)) \<in> set (take k (rev used))
              \<longrightarrow> (\<exists>n. rev used ! k = ''ext'' @ Itoa n \<and> ''ext'' @ Itoa n \<notin> set (take k (rev used)) \<and>
                  (\<forall>m<n. ''ext'' @ Itoa m \<in> set (take k (rev used)))))"
    if k: "k < length (exts @ [eo])" for k
  proof (cases "k < length exts")
    case True
    then have "(exts @ [eo]) ! k = exts ! k" "take k (rev used) = take k (rev used0)"
      "rev used ! k = rev used0 ! k"
      using len by (simp_all add: r nth_append)
    then show ?thesis using ih True by simp
  next
    case False
    then have kk: "k = length exts" using k by simp
    then have "(exts @ [eo]) ! k = eo" "take k (rev used) = rev used0" "rev used ! k = q"
      using len by (simp_all add: r nth_append)
    then show ?thesis using q(3) q(6) q(7) by (auto simp: eo)
  qed
  from 1 2 3 4 5 6 show ?case by blast
qed

text \<open>
  C8. For every list of extensions (each with the order in which its \<open>Params\<close> are
  visited) and every output map, take the state the loop of \<open>encodeExtensions\<close> ends in:
  \<open>used\<close> holds the prefixes chosen, the last one first, so \<open>rev used\<close> lists the
  prefix chosen for each extension in order. No chosen prefix is a reserved name and no
  two extensions get the same prefix. An extension keeps its declared prefix unless that
  is reserved or was chosen for an earlier extension of the message; in that case it
  gets the label \<open>ext\<close>\<open>n\<close> for the first \<open>n\<close> whose label was not chosen
  earlier. The keys returned for signing are, extension by extension, the chosen prefix,
  a dot and the key.
\<close>

theorem encodeExtensions_prefixes:
  "foldl encodeExtension (0, [], p, []) exts = (i, used, p', signed) \<longrightarrow>
   encodeExtensions p exts = (p', signed) \<and>
   length (rev used) = length exts \<and>
   (\<forall>q\<in>set (rev used). \<not> bannedPrefixes q) \<and>
   distinct (rev used) \<and>
   signed = concat (map (\<lambda>(q, e, ks). map (\<lambda>k. q @ ''.'' @ k) ks) (zip (rev used) exts)) \<and>
   (\<forall>k<length exts.
      (\<not> bannedPrefixes (Prefix (fst (exts ! k))) \<and> Prefix (fst (exts ! k)) \<notin> set (take k (rev used))
         \<longrightarrow> rev used ! k = Prefix (fst (exts ! k))) \<and>
      (bannedPrefixes (Prefix (fst (exts ! k))) \<or> Prefix (fst (exts ! k)) \<in> set (take k (rev used))
         \<longrightarrow> (\<exists>n. rev used ! k = ''ext'' @ Itoa n \<and> ''ext'' @ Itoa n \<notin> set (take k (rev used)) \<and>
                  (\<forall>m<n. ''ext'' @ Itoa m \<in> set (take k (rev used))))))"
proof
  assume h: "foldl encodeExtension (0, [], p, []) exts = (i, used, p', signed)"
  have "encodeExtensions p exts = (p', signed)"
    using h by (simp add: encodeExtensions_def)
  with encodeExtensions_loop [OF h] show "encodeExtensions p exts = (p', signed) \<and>
   length (rev used) = length exts \<and>
   (\<forall>q\<in>set (rev used). \<not> bannedPrefixes q) \<and>
   distinct (rev used) \<and>
   signed = concat (map (\<lambda>(q, e, ks). map (\<lambda>k. q @ ''.'' @ k) ks) (zip (rev used) exts)) \<and>
   (\<forall>k<length exts.
      (\<not> bannedPrefixes (Prefix (fst (exts ! k))) \<and> Prefix (fst (exts ! k)) \<notin> set (take k (rev used))
         \<longrightarrow> rev used ! k = Prefix (fst (exts ! k))) \<and>
      (bannedPrefixes (Prefix (fst (exts ! k))) \<or> Prefix (fst (exts ! k)) \<in> set (take k (rev used))
         \<longrightarrow> (\<exists>n. rev used ! k = ''ext'' @ Itoa n \<and> ''ext'' @ Itoa n \<notin> set (take k (rev used)) \<and>
                  (\<forall>m<n. ''ext'' @ Itoa m \<in> set (take k (rev used))))))"
    by simp
qed

theorem encodeExtensions_prefixes_witness:
  "rev (fst (snd (foldl encodeExtension (0, [], Map.empty, [])
     [(\<lparr>ext_Namespace = ''urn:a'', Prefix = ''sig'', Params = [''x'' \<mapsto> ''1'']\<rparr>, [''x'']),
      (\<lparr>ext_Namespace = ''urn:b'', Prefix = ''ax'', Params = [''y'' \<mapsto> ''2'']\<rparr>, [''y'']),
      (\<lparr>ext_Namespace = ''urn:c'', Prefix = ''ax'', Params = Map.empty\<rparr>, []),
      (\<lparr>ext_Namespace = ''urn:d'', Prefix = ''ext1'', Params = [''z'' \<mapsto> ''3'']\<rparr>, [''z''])])))
   = [''ext0'', ''ax'', ''ext1'', ''ext2''] \<and>
   snd (encodeExtensions Map.empty
     [(\<lparr>ext_Namespace = ''urn:a'', Prefix = ''sig'', Params = [''x'' \<mapsto> ''1'']\<rparr>, [''x'']),
      (\<lparr>ext_Namespace = ''urn:b'', Prefix = ''ax'', Params = [''y'' \<mapsto> ''2'']\<rparr>, [''y'']),
      (\<lparr>ext_Namespace = ''urn:c'', Prefix = ''ax'', Params = Map.empty\<rparr>, []),
      (\<lparr>ext_Namespace = ''urn:d'', Prefix = ''ext1'', Params = [''z'' \<mapsto> ''3'']\<rparr>, [''z''])])
   = [''ext0.x'', ''ax.y'', ''ext2.z'']"
  using encodeExtensions_prefixes [of Map.empty
     "[(\<lparr>ext_Namespace = ''urn:a'', Prefix = ''sig'', Params = [''x'' \<mapsto> ''1'']\<rparr>, [''x'']),
      (\<lparr>ext_Namespace = ''urn:b'', Prefix = ''ax'', Params = [''y'' \<mapsto> ''2'']\<rparr>, [''y'']),
      (\<lparr>ext_Namespace = ''urn:c'', Prefix = ''ax'', Params = Map.empty\<rparr>, []),
      (\<lparr>ext_Namespace = ''urn:d'', Prefix = ''ext1'', Params = [''z'' \<mapsto> ''3'']\<rparr>, [''z''])]"
     3 "[''ext2'', ''ext1'', ''ax'', ''ext0'']"]
  by (simp add: encodeExtensions_def encodeExtension_def encodeExtensions_prefix.simps Itoa.simps
      bannedPrefixes_def mapIndex_def)

section \<open>Parsing extensions\<close>


lemma SplitN2_ns: "SplitN2 (CHR ''.'') k = [''ns'', q] \<longleftrightarrow> k = ''ns.'' @ q"
  by (auto simp: SplitN2_two)

lemma SplitN2_cases:
  obtains (two) a b where "SplitN2 c k = [a, b]" "k = a @ c # b" "c \<notin> set a"
        | (one) "SplitN2 c k = [k]" "c \<notin> set k"
proof (cases "c \<in> set k")
  case True
  then obtain a b where "k = a @ c # b" "c \<notin> set a" by (meson split_list_first)
  then show ?thesis using two [of a b] by (simp add: SplitN2_sep)
next
  case False
  then show ?thesis using one by (simp add: SplitN2_no_sep)
qed

lemma parseExtensions_declare_other:
  "\<not> (\<exists>q. k = ''ns.'' @ q) \<Longrightarrow> parseExtensions_declare p st k = Inr st"
proof (cases rule: SplitN2_cases [of "CHR ''.''" k])
  case (two a b)
  assume n: "\<not> (\<exists>q. k = ''ns.'' @ q)"
  have "a \<noteq> ''ns''" using n two(2) by auto
  then show ?thesis using two(1) by (cases st) (simp add: parseExtensions_declare_def)
next
  case one
  then show ?thesis by (cases st) (simp add: parseExtensions_declare_def)
qed

lemma parseExtensions_declare_ns:
  assumes k: "k = ''ns.'' @ q"
  shows "parseExtensions_declare p (prefixes, namespaces) k =
     (if bannedPrefixes q then Inl (PrefixNotAllowed q)
      else if (case prefixes q of None \<Rightarrow> False | Some ns \<Rightarrow> ns \<noteq> mapIndex p k)
      then Inl (PrefixMultipleNamespaces q)
      else if (case namespaces (mapIndex p k) of None \<Rightarrow> False | Some r \<Rightarrow> r \<noteq> q)
      then Inl (NamespaceMultiplePrefixes (mapIndex p k))
      else Inr (prefixes(q \<mapsto> mapIndex p k), namespaces(mapIndex p k \<mapsto> q)))"
proof -
  have s: "SplitN2 (CHR ''.'') k = [''ns'', q]" using k by (simp add: SplitN2_ns)
  show ?thesis unfolding parseExtensions_declare_def by (simp add: s)
qed

text \<open>What makes the declarations among the keys \<open>D\<close> unacceptable.\<close>

lemma parseExtensions_inv_good:
  assumes "parseExtensions_inv p D st"
  shows "\<not> ((\<exists>q. ''ns.'' @ q \<in> D \<and> bannedPrefixes q) \<or>
            (\<exists>q r v. q \<noteq> r \<and> ''ns.'' @ q \<in> D \<and> ''ns.'' @ r \<in> D \<and>
                     p (''ns.'' @ q) = Some v \<and> p (''ns.'' @ r) = Some v))"
proof -
  obtain prefixes namespaces where st: "st = (prefixes, namespaces)" by (cases st)
  from assms st have
    n: "\<forall>v q. namespaces v = Some q \<longleftrightarrow> ''ns.'' @ q \<in> D \<and> p (''ns.'' @ q) = Some v"
    and b: "\<forall>q. ''ns.'' @ q \<in> D \<longrightarrow> \<not> bannedPrefixes q"
    by (auto simp: parseExtensions_inv_def)
  have "q = r" if "''ns.'' @ q \<in> D" "''ns.'' @ r \<in> D" "p (''ns.'' @ q) = Some v" "p (''ns.'' @ r) = Some v"
    for q r v
  proof -
    have "namespaces v = Some q" "namespaces v = Some r" using n that by blast+
    then show ?thesis by simp
  qed
  with b show ?thesis by blast
qed

lemma parseExtensions_declare_step:
  assumes inv: "parseExtensions_inv p D st" and k: "k \<in> dom p" "k \<notin> D"
  shows "case parseExtensions_declare p st k of
           Inl e \<Rightarrow> (\<forall>q. e \<noteq> PrefixMultipleNamespaces q) \<and>
                    ((\<exists>q. ''ns.'' @ q \<in> insert k D \<and> bannedPrefixes q) \<or>
                     (\<exists>q r v. q \<noteq> r \<and> ''ns.'' @ q \<in> insert k D \<and> ''ns.'' @ r \<in> insert k D \<and>
                        p (''ns.'' @ q) = Some v \<and> p (''ns.'' @ r) = Some v))
         | Inr st' \<Rightarrow> parseExtensions_inv p (insert k D) st'"
proof (cases "\<exists>q. k = ''ns.'' @ q")
  case False
  then have "parseExtensions_declare p st k = Inr st" by (rule parseExtensions_declare_other)
  moreover have "parseExtensions_inv p (insert k D) st"
    using inv False by (cases st) (auto simp: parseExtensions_inv_def)
  ultimately show ?thesis by simp
next
  case True
  then obtain q where q: "k = ''ns.'' @ q" by blast
  obtain prefixes namespaces where st: "st = (prefixes, namespaces)" by (cases st)
  obtain v where v: "p k = Some v" using k(1) by auto
  then have mv: "mapIndex p k = v" by (simp add: mapIndex_def)
  from inv st have
    pr: "\<forall>q. prefixes q = (if ''ns.'' @ q \<in> D then p (''ns.'' @ q) else None)"
    and n: "\<forall>v q. namespaces v = Some q \<longleftrightarrow> ''ns.'' @ q \<in> D \<and> p (''ns.'' @ q) = Some v"
    and b: "\<forall>q. ''ns.'' @ q \<in> D \<longrightarrow> \<not> bannedPrefixes q"
    by (auto simp: parseExtensions_inv_def)
  have pq: "prefixes q = None" using pr k(2) q by simp
  note d = parseExtensions_declare_ns [OF q, of p prefixes namespaces]
  show ?thesis
  proof (cases "bannedPrefixes q")
    case True
    then have "parseExtensions_declare p st k = Inl (PrefixNotAllowed q)"
      using d st by simp
    moreover have "\<exists>q. ''ns.'' @ q \<in> insert k D \<and> bannedPrefixes q"
      using True q by blast
    ultimately show ?thesis by simp
  next
    case nb: False
    show ?thesis
    proof (cases "namespaces v")
      case None
      have "parseExtensions_declare p st k = Inr (prefixes(q \<mapsto> v), namespaces(v \<mapsto> q))"
        using d st nb pq None mv by simp
      moreover have "parseExtensions_inv p (insert k D) (prefixes(q \<mapsto> v), namespaces(v \<mapsto> q))"
      proof -
        have 1: "\<forall>q'. (prefixes(q \<mapsto> v)) q' = (if ''ns.'' @ q' \<in> insert k D then p (''ns.'' @ q') else None)"
          using pr v q by auto
        have 2: "\<forall>v' q'. (namespaces(v \<mapsto> q)) v' = Some q' \<longleftrightarrow>
                   ''ns.'' @ q' \<in> insert k D \<and> p (''ns.'' @ q') = Some v'"
        proof (intro allI)
          fix v' q'
          show "(namespaces(v \<mapsto> q)) v' = Some q' \<longleftrightarrow>
                   ''ns.'' @ q' \<in> insert k D \<and> p (''ns.'' @ q') = Some v'"
          proof (cases "v' = v")
            case True
            have "\<not> (''ns.'' @ q' \<in> D \<and> p (''ns.'' @ q') = Some v)"
              using n None by (metis option.distinct(1))
            then show ?thesis using True v q by auto
          next
            case False
            then show ?thesis using n v q by auto
          qed
        qed
        have 3: "\<forall>q'. ''ns.'' @ q' \<in> insert k D \<longrightarrow> \<not> bannedPrefixes q'"
          using b nb q by auto
        from 1 2 3 show ?thesis unfolding parseExtensions_inv_def by simp
      qed
      ultimately show ?thesis by simp
    next
      case (Some r)
      then have r: "''ns.'' @ r \<in> D" "p (''ns.'' @ r) = Some v" using n by blast+
      then have rq: "r \<noteq> q" using k(2) q by auto
      then have "parseExtensions_declare p st k = Inl (NamespaceMultiplePrefixes v)"
        using d st nb pq Some mv by simp
      moreover have "\<exists>q r v. q \<noteq> r \<and> ''ns.'' @ q \<in> insert k D \<and> ''ns.'' @ r \<in> insert k D \<and>
                        p (''ns.'' @ q) = Some v \<and> p (''ns.'' @ r) = Some v"
      proof (intro exI conjI)
        show "r \<noteq> q" by (rule rq)
        show "''ns.'' @ r \<in> insert k D" using r by simp
        show "''ns.'' @ q \<in> insert k D" using q by simp
        show "p (''ns.'' @ r) = Some v" by (rule r(2))
        show "p (''ns.'' @ q) = Some v" using v q by simp
      qed
      ultimately show ?thesis by simp
    qed
  qed
qed

lemma parseExtensions_declarations_inv:
  "parseExtensions_inv p D st \<Longrightarrow> distinct ks \<Longrightarrow> set ks \<subseteq> dom p \<Longrightarrow> set ks \<inter> D = {} \<Longrightarrow>
   (case parseExtensions_declarations p ks st of
      Inl e \<Rightarrow> (\<forall>q. e \<noteq> PrefixMultipleNamespaces q) \<and>
               ((\<exists>q. ''ns.'' @ q \<in> D \<union> set ks \<and> bannedPrefixes q) \<or>
                (\<exists>q r v. q \<noteq> r \<and> ''ns.'' @ q \<in> D \<union> set ks \<and> ''ns.'' @ r \<in> D \<union> set ks \<and>
                   p (''ns.'' @ q) = Some v \<and> p (''ns.'' @ r) = Some v))
    | Inr st' \<Rightarrow> parseExtensions_inv p (D \<union> set ks) st')"
proof (induction ks arbitrary: D st)
  case Nil
  then show ?case by simp
next
  case (Cons k ks)
  have k: "k \<in> dom p" "k \<notin> D" using Cons.prems by auto
  note step = parseExtensions_declare_step [OF Cons.prems(1) k]
  show ?case
  proof (cases "parseExtensions_declare p st k")
    case (Inl e)
    with step have "(\<forall>q. e \<noteq> PrefixMultipleNamespaces q) \<and>
                    ((\<exists>q. ''ns.'' @ q \<in> insert k D \<and> bannedPrefixes q) \<or>
                     (\<exists>q r v. q \<noteq> r \<and> ''ns.'' @ q \<in> insert k D \<and> ''ns.'' @ r \<in> insert k D \<and>
                        p (''ns.'' @ q) = Some v \<and> p (''ns.'' @ r) = Some v))"
      by simp
    then have "(\<forall>q. e \<noteq> PrefixMultipleNamespaces q) \<and>
               ((\<exists>q. ''ns.'' @ q \<in> D \<union> set (k # ks) \<and> bannedPrefixes q) \<or>
                (\<exists>q r v. q \<noteq> r \<and> ''ns.'' @ q \<in> D \<union> set (k # ks) \<and> ''ns.'' @ r \<in> D \<union> set (k # ks) \<and>
                   p (''ns.'' @ q) = Some v \<and> p (''ns.'' @ r) = Some v))"
      by (simp only: Un_insert_right list.set) blast
    then show ?thesis using Inl by simp
  next
    case (Inr st')
    with step have i: "parseExtensions_inv p (insert k D) st'" by simp
    have "distinct ks" "set ks \<subseteq> dom p" "set ks \<inter> insert k D = {}"
      using Cons.prems by auto
    from Cons.IH [OF i this] have "case parseExtensions_declarations p ks st' of
      Inl e \<Rightarrow> (\<forall>q. e \<noteq> PrefixMultipleNamespaces q) \<and>
               ((\<exists>q. ''ns.'' @ q \<in> insert k D \<union> set ks \<and> bannedPrefixes q) \<or>
                (\<exists>q r v. q \<noteq> r \<and> ''ns.'' @ q \<in> insert k D \<union> set ks \<and> ''ns.'' @ r \<in> insert k D \<union> set ks \<and>
                   p (''ns.'' @ q) = Some v \<and> p (''ns.'' @ r) = Some v))
    | Inr st'' \<Rightarrow> parseExtensions_inv p (insert k D \<union> set ks) st''" .
    moreover have "insert k D \<union> set ks = D \<union> set (k # ks)" by auto
    ultimately have "case parseExtensions_declarations p ks st' of
      Inl e \<Rightarrow> (\<forall>q. e \<noteq> PrefixMultipleNamespaces q) \<and>
               ((\<exists>q. ''ns.'' @ q \<in> D \<union> set (k # ks) \<and> bannedPrefixes q) \<or>
                (\<exists>q r v. q \<noteq> r \<and> ''ns.'' @ q \<in> D \<union> set (k # ks) \<and> ''ns.'' @ r \<in> D \<union> set (k # ks) \<and>
                   p (''ns.'' @ q) = Some v \<and> p (''ns.'' @ r) = Some v))
    | Inr st'' \<Rightarrow> parseExtensions_inv p (D \<union> set (k # ks)) st''"
      by (simp only:)
    then show ?thesis using Inr by (simp only: parseExtensions_declarations.simps sum.case)
  qed
qed


lemma parseExtensions_positions_notin:
  "q \<notin> set qs \<Longrightarrow> parseExtensions_positions qs i pos q = pos q"
  by (induction qs arbitrary: i pos) auto

lemma parseExtensions_positions_nth:
  "distinct qs \<Longrightarrow> j < length qs \<Longrightarrow> parseExtensions_positions qs i pos (qs ! j) = Some (i + j)"
proof (induction qs arbitrary: i pos j)
  case Nil
  then show ?case by simp
next
  case (Cons q qs)
  show ?case
  proof (cases j)
    case 0
    then show ?thesis using Cons.prems by (simp add: parseExtensions_positions_notin)
  next
    case (Suc j')
    have "parseExtensions_positions qs (Suc i) (pos(q \<mapsto> i)) (qs ! j') = Some (Suc i + j')"
      using Cons.prems Suc by (intro Cons.IH) auto
    then show ?thesis using Suc by simp
  qed
qed

lemma parseExtensions_positions_Some:
  assumes "distinct qs" "parseExtensions_positions qs 0 Map.empty q = Some j"
  shows "j < length qs \<and> qs ! j = q"
proof (cases "q \<in> set qs")
  case False
  then show ?thesis using assms(2) by (simp add: parseExtensions_positions_notin)
next
  case True
  then obtain j' where j': "j' < length qs" "qs ! j' = q" by (auto simp: in_set_conv_nth)
  from parseExtensions_positions_nth [OF assms(1) j'(1), of 0 Map.empty] j'(2) assms(2)
  have "j = j'" by simp
  with j' show ?thesis by simp
qed

lemma parseExtensions_collect_step:
  assumes pos: "\<And>q i. pos q = Some i \<Longrightarrow> i < length exts \<and> Prefix (exts ! i) = q"
    and len: "length R = length exts"
    and i: "i < length exts"
  shows "length (parseExtensions_collect p pos R k) = length R \<and>
         Prefix (parseExtensions_collect p pos R k ! i) = Prefix (R ! i) \<and>
         ext_Namespace (parseExtensions_collect p pos R k ! i) = ext_Namespace (R ! i) \<and>
         Params (parseExtensions_collect p pos R k ! i) key =
           (if SplitN2 (CHR ''.'') k = [Prefix (exts ! i), key] \<and> Prefix (exts ! i) \<noteq> ''ns'' \<and>
               pos (Prefix (exts ! i)) = Some i
            then Some (mapIndex p k) else Params (R ! i) key)"
proof (cases rule: SplitN2_cases [of "CHR ''.''" k])
  case one
  then show ?thesis by (simp add: parseExtensions_collect_def)
next
  case (two a b)
  show ?thesis
  proof (cases "a = ''ns''")
    case True
    then show ?thesis using two(1) by (auto simp: parseExtensions_collect_def)
  next
    case ns: False
    show ?thesis
    proof (cases "pos a")
      case None
      then show ?thesis using two(1) ns by (auto simp: parseExtensions_collect_def)
    next
      case (Some i0)
      then have i0: "i0 < length exts" "Prefix (exts ! i0) = a" using pos by blast+
      have c: "parseExtensions_collect p pos R k =
               R[i0 := (R ! i0)\<lparr>Params := (Params (R ! i0))(b \<mapsto> mapIndex p k)\<rparr>]"
        using two(1) ns Some by (simp add: parseExtensions_collect_def)
      show ?thesis
      proof (cases "i = i0")
        case True
        then show ?thesis using c i0 len two(1) ns Some by auto
      next
        case False
        have "\<not> (Prefix (exts ! i) = a \<and> pos (Prefix (exts ! i)) = Some i)"
          using Some False by auto
        then show ?thesis using c False two(1) by auto
      qed
    qed
  qed
qed

lemma parseExtensions_collect_fold:
  assumes pos: "\<And>q i. pos q = Some i \<Longrightarrow> i < length exts \<and> Prefix (exts ! i) = q"
  shows "length (foldl (parseExtensions_collect p pos) exts ks) = length exts \<and>
         (\<forall>i<length exts.
            Prefix (foldl (parseExtensions_collect p pos) exts ks ! i) = Prefix (exts ! i) \<and>
            ext_Namespace (foldl (parseExtensions_collect p pos) exts ks ! i) = ext_Namespace (exts ! i) \<and>
            (\<forall>key. Params (foldl (parseExtensions_collect p pos) exts ks ! i) key =
               (if pos (Prefix (exts ! i)) = Some i \<and> Prefix (exts ! i) \<noteq> ''ns'' \<and>
                   CHR ''.'' \<notin> set (Prefix (exts ! i)) \<and>
                   Prefix (exts ! i) @ ''.'' @ key \<in> set ks
                then Some (mapIndex p (Prefix (exts ! i) @ ''.'' @ key))
                else Params (exts ! i) key)))"
proof (induction ks rule: rev_induct)
  case Nil
  then show ?case by simp
next
  case (snoc k ks)
  let ?R = "foldl (parseExtensions_collect p pos) exts ks"
  have len: "length ?R = length exts" using snoc by blast
  have f: "foldl (parseExtensions_collect p pos) exts (ks @ [k]) = parseExtensions_collect p pos ?R k"
    by simp
  show ?case
  proof (intro conjI allI impI)
    show "length (foldl (parseExtensions_collect p pos) exts (ks @ [k])) = length exts"
      unfolding f using len by (simp add: parseExtensions_collect_def split: list.splits option.splits)
  next
    fix i assume i: "i < length exts"
    note st = parseExtensions_collect_step [OF pos len i, where p = p and k = k]
    show "Prefix (foldl (parseExtensions_collect p pos) exts (ks @ [k]) ! i) = Prefix (exts ! i)"
      unfolding f using st snoc i by simp
    show "ext_Namespace (foldl (parseExtensions_collect p pos) exts (ks @ [k]) ! i) = ext_Namespace (exts ! i)"
      unfolding f using st snoc i by simp
    fix key
    have ih: "Params (?R ! i) key =
               (if pos (Prefix (exts ! i)) = Some i \<and> Prefix (exts ! i) \<noteq> ''ns'' \<and>
                   CHR ''.'' \<notin> set (Prefix (exts ! i)) \<and>
                   Prefix (exts ! i) @ ''.'' @ key \<in> set ks
                then Some (mapIndex p (Prefix (exts ! i) @ ''.'' @ key))
                else Params (exts ! i) key)"
      using snoc i by blast
    have sp: "SplitN2 (CHR ''.'') k = [Prefix (exts ! i), key] \<longleftrightarrow>
              CHR ''.'' \<notin> set (Prefix (exts ! i)) \<and> k = Prefix (exts ! i) @ ''.'' @ key"
      by (simp add: SplitN2_two)
    show "Params (foldl (parseExtensions_collect p pos) exts (ks @ [k]) ! i) key =
               (if pos (Prefix (exts ! i)) = Some i \<and> Prefix (exts ! i) \<noteq> ''ns'' \<and>
                   CHR ''.'' \<notin> set (Prefix (exts ! i)) \<and>
                   Prefix (exts ! i) @ ''.'' @ key \<in> set (ks @ [k])
                then Some (mapIndex p (Prefix (exts ! i) @ ''.'' @ key))
                else Params (exts ! i) key)"
      unfolding f using st [where key = key] ih sp by auto
  qed
qed


lemma parseExtensions_inv_init: "parseExtensions_inv p {} (Map.empty, Map.empty)"
  by (simp add: parseExtensions_inv_def)

lemma banned_ns: "bannedPrefixes ''ns''"
  by (simp add: bannedPrefixes_def)

text \<open>
  C7, as amended. Let the three loops visit the keys of the map, and the declared
  prefixes, in any order. A key \<open>ns.q\<close> declares the prefix \<open>q\<close>, all the text after
  \<open>ns.\<close>. Parsing fails exactly when a declared prefix is a reserved name or two
  different declared prefixes have the same namespace value; it never fails for a prefix
  with two namespace values, which the distinct keys of a map cannot express. When it
  succeeds there is one extension for each declared prefix, with the declared namespace,
  and an entry of the map belongs to the extension whose prefix is the text before the
  first dot of its key: the extension of a prefix without a dot holds exactly the
  entries \<open>prefix.key\<close>, the extension of a prefix with a dot holds none, and every
  other entry is ignored.
\<close>

theorem parseExtensions_spec:
  "distinct ks1 \<and> set ks1 = dom p \<and> distinct ks3 \<and> set ks3 = dom p \<and>
   distinct ps \<and> set ps = {q. p (''ns.'' @ q) \<noteq> None} \<longrightarrow>
   (isl (parseExtensions p ks1 ps ks3) \<longleftrightarrow>
      (\<exists>q. p (''ns.'' @ q) \<noteq> None \<and> bannedPrefixes q) \<or>
      (\<exists>q r v. q \<noteq> r \<and> p (''ns.'' @ q) = Some v \<and> p (''ns.'' @ r) = Some v)) \<and>
   (\<forall>q. parseExtensions p ks1 ps ks3 \<noteq> Inl (PrefixMultipleNamespaces q)) \<and>
   (\<forall>exts. parseExtensions p ks1 ps ks3 = Inr exts \<longrightarrow>
      map Prefix exts = ps \<and>
      (\<forall>e\<in>set exts.
         ext_Namespace e = mapIndex p (''ns.'' @ Prefix e) \<and>
         (\<forall>key. Params e key =
            (if CHR ''.'' \<in> set (Prefix e) then None else p (Prefix e @ ''.'' @ key)))))"
proof
  assume h: "distinct ks1 \<and> set ks1 = dom p \<and> distinct ks3 \<and> set ks3 = dom p \<and>
   distinct ps \<and> set ps = {q. p (''ns.'' @ q) \<noteq> None}"
  let ?bad = "(\<exists>q. p (''ns.'' @ q) \<noteq> None \<and> bannedPrefixes q) \<or>
      (\<exists>q r v. q \<noteq> r \<and> p (''ns.'' @ q) = Some v \<and> p (''ns.'' @ r) = Some v)"
  let ?badD = "(\<exists>q. ''ns.'' @ q \<in> {} \<union> set ks1 \<and> bannedPrefixes q) \<or>
                (\<exists>q r v. q \<noteq> r \<and> ''ns.'' @ q \<in> {} \<union> set ks1 \<and> ''ns.'' @ r \<in> {} \<union> set ks1 \<and>
                   p (''ns.'' @ q) = Some v \<and> p (''ns.'' @ r) = Some v)"
  have dk: "k \<in> {} \<union> set ks1 \<longleftrightarrow> p k \<noteq> None" for k
    using h by auto
  have bad_eq: "?badD \<longleftrightarrow> ?bad"
    unfolding dk by blast
  have l1: "case parseExtensions_declarations p ks1 (Map.empty, Map.empty) of
      Inl e \<Rightarrow> (\<forall>q. e \<noteq> PrefixMultipleNamespaces q) \<and> ?badD
    | Inr st' \<Rightarrow> parseExtensions_inv p ({} \<union> set ks1) st'"
    using parseExtensions_declarations_inv [OF parseExtensions_inv_init, of ks1 p] h by simp
  show "(isl (parseExtensions p ks1 ps ks3) \<longleftrightarrow> ?bad) \<and>
   (\<forall>q. parseExtensions p ks1 ps ks3 \<noteq> Inl (PrefixMultipleNamespaces q)) \<and>
   (\<forall>exts. parseExtensions p ks1 ps ks3 = Inr exts \<longrightarrow>
      map Prefix exts = ps \<and>
      (\<forall>e\<in>set exts.
         ext_Namespace e = mapIndex p (''ns.'' @ Prefix e) \<and>
         (\<forall>key. Params e key =
            (if CHR ''.'' \<in> set (Prefix e) then None else p (Prefix e @ ''.'' @ key)))))"
  proof (cases "parseExtensions_declarations p ks1 (Map.empty, Map.empty)")
    case (Inl e)
    with l1 have e: "\<forall>q. e \<noteq> PrefixMultipleNamespaces q" and b: ?badD by simp_all
    have pe: "parseExtensions p ks1 ps ks3 = Inl e" using Inl by (simp add: parseExtensions_def)
    from b bad_eq have ?bad by blast
    then show ?thesis using pe e by simp
  next
    case (Inr st')
    obtain prefixes namespaces where st': "st' = (prefixes, namespaces)" by (cases st')
    from l1 Inr have inv: "parseExtensions_inv p (dom p) st'" using h by simp
    from parseExtensions_inv_good [OF inv] have nb: "\<not> ?bad"
      using bad_eq h by (simp only: Un_empty_left) blast
    have pr: "prefixes q = p (''ns.'' @ q)" for q
      using inv st' by (auto simp: parseExtensions_inv_def dom_def)
    have nban: "\<not> bannedPrefixes (ps ! i)" if "i < length ps" for i
    proof -
      have "ps ! i \<in> set ps" using that by simp
      then have "p (''ns.'' @ ps ! i) \<noteq> None" using h by simp
      then show ?thesis using nb by blast
    qed
    let ?pos = "parseExtensions_positions ps 0 Map.empty"
    let ?exts0 = "map (\<lambda>q. \<lparr>ext_Namespace = mapIndex prefixes q, Prefix = q, Params = Map.empty\<rparr>) ps"
    let ?R = "foldl (parseExtensions_collect p ?pos) ?exts0 ks3"
    have pe: "parseExtensions p ks1 ps ks3 = Inr ?R"
      using Inr st' by (simp add: parseExtensions_def)
    have pos: "i < length ?exts0 \<and> Prefix (?exts0 ! i) = q" if "?pos q = Some i" for q i
      using parseExtensions_positions_Some [OF _ that] h by simp
    note fold = parseExtensions_collect_fold [of ?pos ?exts0 p ks3, OF pos]
    have len: "length ?R = length ps" using fold by simp
    have P: "Prefix (?R ! i) = ps ! i" if "i < length ps" for i
      using fold that by simp
    have N: "ext_Namespace (?R ! i) = mapIndex p (''ns.'' @ ps ! i)" if "i < length ps" for i
    proof -
      have "ext_Namespace (?R ! i) = mapIndex prefixes (ps ! i)" using fold that by simp
      then show ?thesis by (simp add: mapIndex_def pr)
    qed
    have V: "Params (?R ! i) key =
               (if CHR ''.'' \<in> set (ps ! i) then None else p (ps ! i @ ''.'' @ key))"
      if i: "i < length ps" for i key
    proof -
      have pi: "?pos (ps ! i) = Some i"
        using parseExtensions_positions_nth [of ps i 0 Map.empty] h i by simp
      have ns: "ps ! i \<noteq> ''ns''" using nban [OF i] banned_ns by auto
      have "Params (?R ! i) key =
               (if ?pos (Prefix (?exts0 ! i)) = Some i \<and> Prefix (?exts0 ! i) \<noteq> ''ns'' \<and>
                   CHR ''.'' \<notin> set (Prefix (?exts0 ! i)) \<and>
                   Prefix (?exts0 ! i) @ ''.'' @ key \<in> set ks3
                then Some (mapIndex p (Prefix (?exts0 ! i) @ ''.'' @ key))
                else Params (?exts0 ! i) key)"
        using fold i by simp
      also have "\<dots> = (if CHR ''.'' \<notin> set (ps ! i) \<and> ps ! i @ ''.'' @ key \<in> dom p
                        then Some (mapIndex p (ps ! i @ ''.'' @ key)) else None)"
        using i pi ns h by simp
      also have "\<dots> = (if CHR ''.'' \<in> set (ps ! i) then None else p (ps ! i @ ''.'' @ key))"
        by (auto simp: mapIndex_def dom_def)
      finally show ?thesis .
    qed
    have m: "map Prefix ?R = ps"
      by (rule nth_equalityI) (simp_all add: len P)
    have all: "ext_Namespace e = mapIndex p (''ns.'' @ Prefix e) \<and>
         (\<forall>key. Params e key =
            (if CHR ''.'' \<in> set (Prefix e) then None else p (Prefix e @ ''.'' @ key)))"
      if "e \<in> set ?R" for e
    proof -
      from that obtain i where i: "i < length ?R" "?R ! i = e" by (auto simp: in_set_conv_nth)
      then have i': "i < length ps" using len by simp
      show ?thesis using P [OF i'] N [OF i'] V [OF i'] i(2) by simp
    qed
    show ?thesis using pe nb m all by simp
  qed
qed


theorem parseExtensions_spec_witness:
  "(distinct [''mode'', ''ns.ax'', ''ax.mode'', ''foo.bar''] \<and>
   set [''mode'', ''ns.ax'', ''ax.mode'', ''foo.bar''] =
     dom [''ns.ax'' \<mapsto> ''urn:ax'', ''ax.mode'' \<mapsto> ''fetch'', ''foo.bar'' \<mapsto> ''1'', ''mode'' \<mapsto> ''checkid_setup''] \<and>
   set [''ax''] =
     {q. [''ns.ax'' \<mapsto> ''urn:ax'', ''ax.mode'' \<mapsto> ''fetch'', ''foo.bar'' \<mapsto> ''1'', ''mode'' \<mapsto> ''checkid_setup'']
           (''ns.'' @ q) \<noteq> None}) \<and>
   (case parseExtensions
          [''ns.ax'' \<mapsto> ''urn:ax'', ''ax.mode'' \<mapsto> ''fetch'', ''foo.bar'' \<mapsto> ''1'', ''mode'' \<mapsto> ''checkid_setup'']
          [''mode'', ''ns.ax'', ''ax.mode'', ''foo.bar''] [''ax'']
          [''foo.bar'', ''ax.mode'', ''ns.ax'', ''mode''] of
      Inr [e] \<Rightarrow> Prefix e = ''ax'' \<and> ext_Namespace e = ''urn:ax'' \<and>
                 Params e ''mode'' = Some ''fetch'' \<and> Params e ''bar'' = None
    | _ \<Rightarrow> False) \<and>
   parseExtensions
          [''ns.ax'' \<mapsto> ''urn:ax'', ''ns.sig'' \<mapsto> ''urn:s'']
          [''ns.ax'', ''ns.sig''] [''ax'', ''sig''] [''ns.sig'', ''ns.ax'']
     = Inl (PrefixNotAllowed ''sig'') \<and>
   parseExtensions
          [''ns.ax'' \<mapsto> ''urn:ax'', ''ns.ay'' \<mapsto> ''urn:ax'']
          [''ns.ax'', ''ns.ay''] [''ax'', ''ay''] [''ns.ay'', ''ns.ax'']
     = Inl (NamespaceMultiplePrefixes ''urn:ax'')"
proof -
  have k: "distinct [''mode'', ''ns.ax'', ''ax.mode'', ''foo.bar''] \<and>
   set [''mode'', ''ns.ax'', ''ax.mode'', ''foo.bar''] =
     dom [''ns.ax'' \<mapsto> ''urn:ax'', ''ax.mode'' \<mapsto> ''fetch'', ''foo.bar'' \<mapsto> ''1'', ''mode'' \<mapsto> ''checkid_setup''] \<and>
   set [''ax''] =
     {q. [''ns.ax'' \<mapsto> ''urn:ax'', ''ax.mode'' \<mapsto> ''fetch'', ''foo.bar'' \<mapsto> ''1'', ''mode'' \<mapsto> ''checkid_setup'']
           (''ns.'' @ q) \<noteq> None}"
    by (auto split: if_splits)
  have r: "(case parseExtensions
          [''ns.ax'' \<mapsto> ''urn:ax'', ''ax.mode'' \<mapsto> ''fetch'', ''foo.bar'' \<mapsto> ''1'', ''mode'' \<mapsto> ''checkid_setup'']
          [''mode'', ''ns.ax'', ''ax.mode'', ''foo.bar''] [''ax'']
          [''foo.bar'', ''ax.mode'', ''ns.ax'', ''mode''] of
      Inr [e] \<Rightarrow> Prefix e = ''ax'' \<and> ext_Namespace e = ''urn:ax'' \<and>
                 Params e ''mode'' = Some ''fetch'' \<and> Params e ''bar'' = None
    | _ \<Rightarrow> False) \<and>
   parseExtensions
          [''ns.ax'' \<mapsto> ''urn:ax'', ''ns.sig'' \<mapsto> ''urn:s'']
          [''ns.ax'', ''ns.sig''] [''ax'', ''sig''] [''ns.sig'', ''ns.ax'']
     = Inl (PrefixNotAllowed ''sig'') \<and>
   parseExtensions
          [''ns.ax'' \<mapsto> ''urn:ax'', ''ns.ay'' \<mapsto> ''urn:ax'']
          [''ns.ax'', ''ns.ay''] [''ax'', ''ay''] [''ns.ay'', ''ns.ax'']
     = Inl (NamespaceMultiplePrefixes ''urn:ax'')"
    using parseExtensions_spec [of "[''mode'', ''ns.ax'', ''ax.mode'', ''foo.bar'']"
            "[''ns.ax'' \<mapsto> ''urn:ax'', ''ax.mode'' \<mapsto> ''fetch'', ''foo.bar'' \<mapsto> ''1'', ''mode'' \<mapsto> ''checkid_setup'']"
            "[''foo.bar'', ''ax.mode'', ''ns.ax'', ''mode'']" "[''ax'']"]
    by (simp add: parseExtensions_def parseExtensions_declare_def parseExtensions_collect_def
        bannedPrefixes_def mapIndex_def)
  from k r show ?thesis by (rule conjI)
qed

text \<open>
  C7 as stated fails for a declared prefix that holds a dot: \<open>ns.a.b\<close> declares the
  prefix \<open>a.b\<close>, and the entry \<open>a.b.c\<close> is not collected into its extension.
\<close>

theorem parseExtensions_dotted_prefix_counterexample:
  "(case parseExtensions [''ns.a.b'' \<mapsto> ''urn:x'', ''a.b.c'' \<mapsto> ''v'']
          [''ns.a.b'', ''a.b.c''] [''a.b''] [''ns.a.b'', ''a.b.c''] of
      Inr [e] \<Rightarrow> Prefix e = ''a.b'' \<and> ext_Namespace e = ''urn:x'' \<and> Params e ''c'' = None
    | _ \<Rightarrow> False) \<and>
   [''ns.a.b'' \<mapsto> ''urn:x'', ''a.b.c'' \<mapsto> ''v''] (''a.b'' @ ''.'' @ ''c'') = Some ''v''"
  by (simp add: parseExtensions_def parseExtensions_declare_def parseExtensions_collect_def
      bannedPrefixes_def mapIndex_def)

section \<open>The signed assertion\<close>


lemma foldl_upd_dotted:
  "CHR ''.'' \<notin> set x \<Longrightarrow>
   foldl (\<lambda>q k. q(prefix @ CHR ''.'' # k \<mapsto> f k)) p ks x = p x"
proof (induction ks arbitrary: p)
  case Nil
  then show ?case by simp
next
  case (Cons k ks)
  have "x \<noteq> prefix @ ''.'' @ k" using Cons.prems by auto
  then show ?case using Cons by simp
qed

lemma encodeExtension_dotfree:
  assumes "CHR ''.'' \<notin> set x"
    and "encodeExtension (i, used, p, signed) eo = (i', used', p', signed')"
  shows "p' x = p x"
proof -
  obtain e ks where eo: "eo = (e, ks)" by (cases eo)
  obtain q j where q: "encodeExtensions_prefix used (Prefix e) i = (q, j)"
    by (cases "encodeExtensions_prefix used (Prefix e) i")
  have "x \<noteq> ''ns.'' @ q" using assms(1) by auto
  then show ?thesis
    using assms eo q by (auto simp: encodeExtension_def foldl_upd_dotted)
qed

lemma encodeExtensions_loop_dotfree:
  "CHR ''.'' \<notin> set x \<Longrightarrow>
   foldl encodeExtension (i, used, p, signed) exts = (i', used', p', signed') \<Longrightarrow> p' x = p x"
proof (induction exts arbitrary: i used p signed)
  case Nil
  then show ?case by simp
next
  case (Cons eo exts)
  obtain i1 used1 p1 signed1 where s: "encodeExtension (i, used, p, signed) eo = (i1, used1, p1, signed1)"
    by (cases "encodeExtension (i, used, p, signed) eo") auto
  have "p' x = p1 x" using Cons.IH [OF Cons.prems(1)] Cons.prems(2) s by simp
  also have "p1 x = p x" using encodeExtension_dotfree [OF Cons.prems(1) s] .
  finally show ?case .
qed

lemma encodeExtensions_dotfree:
  "CHR ''.'' \<notin> set x \<Longrightarrow> fst (encodeExtensions p exts) x = p x"
proof -
  assume x: "CHR ''.'' \<notin> set x"
  obtain i used p' signed where s: "foldl encodeExtension (0, [], p, []) exts = (i, used, p', signed)"
    by (cases "foldl encodeExtension (0, [], p, []) exts") auto
  from encodeExtensions_loop_dotfree [OF x s] s show ?thesis
    by (simp add: encodeExtensions_def)
qed

lemma encodeExtensions_loop_params_free:
  "foldl encodeExtension (i, used, p, signed) exts = (i', used', p', signed') \<Longrightarrow>
   \<exists>q'. foldl encodeExtension (i, used, q, signed) exts = (i', used', q', signed')"
proof (induction exts arbitrary: i used p q signed)
  case Nil
  then show ?case by simp
next
  case (Cons eo exts)
  obtain e ks where eo: "eo = (e, ks)" by (cases eo)
  obtain pre j where pj: "encodeExtensions_prefix used (Prefix e) i = (pre, j)"
    by (cases "encodeExtensions_prefix used (Prefix e) i")
  have 1: "encodeExtension (i, used, p, signed) eo =
           (j, pre # used, foldl (\<lambda>q k. q(pre @ ''.'' @ k \<mapsto> mapIndex (Params e) k))
             (p(''ns.'' @ pre \<mapsto> ext_Namespace e)) ks, signed @ map (\<lambda>k. pre @ ''.'' @ k) ks)"
    for p by (simp add: encodeExtension_def eo pj)
  from Cons.prems have "foldl encodeExtension
      (j, pre # used, foldl (\<lambda>q k. q(pre @ ''.'' @ k \<mapsto> mapIndex (Params e) k))
             (p(''ns.'' @ pre \<mapsto> ext_Namespace e)) ks, signed @ map (\<lambda>k. pre @ ''.'' @ k) ks) exts
      = (i', used', p', signed')"
    by (simp add: 1)
  from Cons.IH [OF this] show ?case by (simp add: 1)
qed

lemma encodeExtensions_signed_params_free:
  "snd (encodeExtensions p exts) = snd (encodeExtensions q exts)"
proof -
  obtain i used p' signed where s: "foldl encodeExtension (0, [], p, []) exts = (i, used, p', signed)"
    by (cases "foldl encodeExtension (0, [], p, []) exts") auto
  from encodeExtensions_loop_params_free [OF s, of q] obtain q' where
    "foldl encodeExtension (0, [], q, []) exts = (i, used, q', signed)" by blast
  with s show ?thesis by (simp add: encodeExtensions_def)
qed

lemma encodeExtensions_signed_dotted:
  "k \<in> set (snd (encodeExtensions p exts)) \<Longrightarrow> CHR ''.'' \<in> set k"
proof -
  assume k: "k \<in> set (snd (encodeExtensions p exts))"
  obtain i used p' signed where s: "foldl encodeExtension (0, [], p, []) exts = (i, used, p', signed)"
    by (cases "foldl encodeExtension (0, [], p, []) exts") auto
  from encodeExtensions_loop [OF s] have
    "signed = concat (map (\<lambda>(q, e, ks). map (\<lambda>k. q @ ''.'' @ k) ks) (zip (rev used) exts))"
    by blast
  moreover have "snd (encodeExtensions p exts) = signed" using s by (simp add: encodeExtensions_def)
  ultimately show ?thesis using k by auto
qed

lemma sign_cong:
  "(\<And>f. f \<in> set signed \<Longrightarrow> mapIndex p f = mapIndex q f) \<Longrightarrow> sign L a p signed = sign L a q signed"
proof -
  assume "\<And>f. f \<in> set signed \<Longrightarrow> mapIndex p f = mapIndex q f"
  then have m: "map (\<lambda>f. f @ '':'' @ mapIndex p f @ ''\<newline>'') signed =
             map (\<lambda>f. f @ '':'' @ mapIndex q f @ ''\<newline>'') signed"
    by simp
  show ?thesis unfolding sign_message m by (rule refl)
qed


text \<open>
  C5. When \<open>login\<close> has a response of the collaborator, a \<open>return_to\<close>, a nonce and an
  association, it hands the parameters built by lines 110-142 to the indirect responder.
  For an association of type HMAC-SHA1 or HMAC-SHA256 (the types of the data model)
  these parameters exist, and: the signed list is \<open>op_endpoint\<close>, \<open>return_to\<close>,
  \<open>response_nonce\<close>, \<open>assoc_handle\<close>, then \<open>claimed_id\<close> when the response has a
  claimed id, then \<open>identity\<close> when it has an identity, then the keys the extension
  encoder returns, in its order; the parameters carry \<open>ns\<close> and \<open>mode\<close> \<open>id_res\<close>;
  \<open>signed\<close> is that list joined by commas; and \<open>sig\<close> is the signature that \<open>sign\<close>
  computes over exactly that list from the parameters themselves.
\<close>

theorem login_encode_signed:
  "(Type assoc = ''HMAC-SHA1'' \<or> Type assoc = ''HMAC-SHA256'' \<longrightarrow>
      (\<exists>rp sg.
         login_encode L p resp nonce assoc orders = Inr rp \<and>
         rp ''ns'' = Some Namespace \<and> rp ''mode'' = Some ''id_res'' \<and>
         rp ''signed'' = Some (Join
            ([''op_endpoint'', ''return_to'', ''response_nonce'', ''assoc_handle''] @
             (if ClaimedID resp \<noteq> [] then [''claimed_id''] else []) @
             (if Identity resp \<noteq> [] then [''identity''] else []) @
             snd (encodeExtensions Map.empty (zip (Extensions resp) orders))) '','') \<and>
         rp ''sig'' = Some sg \<and>
         sign L assoc rp
            ([''op_endpoint'', ''return_to'', ''response_nonce'', ''assoc_handle''] @
             (if ClaimedID resp \<noteq> [] then [''claimed_id''] else []) @
             (if Identity resp \<noteq> [] then [''identity''] else []) @
             snd (encodeExtensions Map.empty (zip (Extensions resp) orders))) = Inr sg \<and>
         rp ''op_endpoint'' = Some (OPEndpoint resp) \<and>
         rp ''return_to'' = Some (mapIndex p ''return_to'') \<and>
         rp ''response_nonce'' = Some nonce \<and>
         rp ''assoc_handle'' = Some (Handle assoc))) \<and>
   (mapIndex p ''return_to'' \<noteq> [] \<and> getNonce L w = (Inr nonce, w1) \<and>
    getAssociation L H (mapIndex p ''assoc_handle'') nonce w1 = (Inr assoc, w2) \<longrightarrow>
      login_id_res L H rg p resp w =
        respond L (indirect L (mapIndex p ''return_to''))
          (login_encode L p resp nonce assoc (encode_orders rg)) w2)"
proof (intro conjI impI)
  assume t: "Type assoc = ''HMAC-SHA1'' \<or> Type assoc = ''HMAC-SHA256''"
  define exts where "exts = zip (Extensions resp) orders"
  define s2 where "s2 = [''op_endpoint'', ''return_to'', ''response_nonce'', ''assoc_handle''] @
             (if ClaimedID resp \<noteq> [] then [''claimed_id''] else []) @
             (if Identity resp \<noteq> [] then [''identity''] else [])"
  define rp0 where "rp0 = [''ns'' \<mapsto> Namespace, ''mode'' \<mapsto> ''id_res'',
                      ''return_to'' \<mapsto> mapIndex p ''return_to'',
                      ''op_endpoint'' \<mapsto> OPEndpoint resp,
                      ''response_nonce'' \<mapsto> nonce,
                      ''assoc_handle'' \<mapsto> Handle assoc]"
  define rp1 where "rp1 = (if ClaimedID resp \<noteq> [] then rp0(''claimed_id'' \<mapsto> ClaimedID resp) else rp0)"
  define rp2 where "rp2 = (if Identity resp \<noteq> [] then rp1(''identity'' \<mapsto> Identity resp) else rp1)"
  define rp3 where "rp3 = (if mapIndex p ''assoc_handle'' \<noteq> [] \<and> mapIndex p ''assoc_handle'' \<noteq> Handle assoc
                      then rp2(''invalidate_handle'' \<mapsto> mapIndex p ''assoc_handle'')
                      else rp2)"
  obtain rp4 es where e: "encodeExtensions rp3 exts = (rp4, es)"
    by (cases "encodeExtensions rp3 exts")
  have es: "es = snd (encodeExtensions Map.empty exts)"
    using e encodeExtensions_signed_params_free [of rp3 exts Map.empty] by simp
  have s2': "(if Identity resp \<noteq> []
              then (if ClaimedID resp \<noteq> []
                    then [''op_endpoint'', ''return_to'', ''response_nonce'', ''assoc_handle''] @ [''claimed_id'']
                    else [''op_endpoint'', ''return_to'', ''response_nonce'', ''assoc_handle'']) @ [''identity'']
              else (if ClaimedID resp \<noteq> []
                    then [''op_endpoint'', ''return_to'', ''response_nonce'', ''assoc_handle''] @ [''claimed_id'']
                    else [''op_endpoint'', ''return_to'', ''response_nonce'', ''assoc_handle''])) = s2"
    by (simp add: s2_def)
  have le: "login_encode L p resp nonce assoc orders =
        (case sign L assoc (rp4(''signed'' \<mapsto> Join (s2 @ es) '','')) (s2 @ es) of
           Inl err \<Rightarrow> Inl err
         | Inr sig \<Rightarrow> Inr (rp4(''signed'' \<mapsto> Join (s2 @ es) '','', ''sig'' \<mapsto> sig)))"
    unfolding login_encode_def Let_def s2'
    unfolding rp0_def [symmetric] rp1_def [symmetric] rp2_def [symmetric] rp3_def [symmetric]
      exts_def [symmetric] e
    by simp
  have d: "rp4 x = rp3 x" if "CHR ''.'' \<notin> set x" for x
    using encodeExtensions_dotfree [OF that, of rp3 exts] e by simp
  have core: "rp3 ''ns'' = Some Namespace" "rp3 ''mode'' = Some ''id_res''"
    "rp3 ''op_endpoint'' = Some (OPEndpoint resp)"
    "rp3 ''return_to'' = Some (mapIndex p ''return_to'')"
    "rp3 ''response_nonce'' = Some nonce"
    "rp3 ''assoc_handle'' = Some (Handle assoc)"
    by (simp_all add: rp3_def rp2_def rp1_def rp0_def)
  let ?rs = "rp4(''signed'' \<mapsto> Join (s2 @ es) '','')"
  obtain sg where sg: "sign L assoc ?rs (s2 @ es) = Inr sg"
    using t by (auto simp: sign_message hmacSHA1_def hmacSHA256_def)
  let ?rp = "rp4(''signed'' \<mapsto> Join (s2 @ es) '','', ''sig'' \<mapsto> sg)"
  have nosig: "f \<noteq> ''sig''" if "f \<in> set (s2 @ es)" for f
  proof (cases "f \<in> set s2")
    case True
    then show ?thesis by (auto simp: s2_def split: if_splits)
  next
    case False
    then have "f \<in> set (snd (encodeExtensions Map.empty exts))" using that es by simp
    then have "CHR ''.'' \<in> set f" by (rule encodeExtensions_signed_dotted)
    then show ?thesis by auto
  qed
  have "sign L assoc ?rp (s2 @ es) = sign L assoc ?rs (s2 @ es)"
    by (rule sign_cong) (use nosig in \<open>auto simp: mapIndex_def\<close>)
  with sg have sg': "sign L assoc ?rp (s2 @ es) = Inr sg" by simp
  have r: "login_encode L p resp nonce assoc orders = Inr ?rp"
    using le sg by simp
  have v: "?rp ''ns'' = Some Namespace" "?rp ''mode'' = Some ''id_res''"
    "?rp ''op_endpoint'' = Some (OPEndpoint resp)"
    "?rp ''return_to'' = Some (mapIndex p ''return_to'')"
    "?rp ''response_nonce'' = Some nonce"
    "?rp ''assoc_handle'' = Some (Handle assoc)"
    "?rp ''signed'' = Some (Join (s2 @ es) '','')" "?rp ''sig'' = Some sg"
    using core by (simp_all add: d)
  have full: "[''op_endpoint'', ''return_to'', ''response_nonce'', ''assoc_handle''] @
             (if ClaimedID resp \<noteq> [] then [''claimed_id''] else []) @
             (if Identity resp \<noteq> [] then [''identity''] else []) @
             snd (encodeExtensions Map.empty (zip (Extensions resp) orders)) = s2 @ es"
    by (simp add: s2_def es exts_def)
  show "\<exists>rp sg.
         login_encode L p resp nonce assoc orders = Inr rp \<and>
         rp ''ns'' = Some Namespace \<and> rp ''mode'' = Some ''id_res'' \<and>
         rp ''signed'' = Some (Join
            ([''op_endpoint'', ''return_to'', ''response_nonce'', ''assoc_handle''] @
             (if ClaimedID resp \<noteq> [] then [''claimed_id''] else []) @
             (if Identity resp \<noteq> [] then [''identity''] else []) @
             snd (encodeExtensions Map.empty (zip (Extensions resp) orders))) '','') \<and>
         rp ''sig'' = Some sg \<and>
         sign L assoc rp
            ([''op_endpoint'', ''return_to'', ''response_nonce'', ''assoc_handle''] @
             (if ClaimedID resp \<noteq> [] then [''claimed_id''] else []) @
             (if Identity resp \<noteq> [] then [''identity''] else []) @
             snd (encodeExtensions Map.empty (zip (Extensions resp) orders))) = Inr sg \<and>
         rp ''op_endpoint'' = Some (OPEndpoint resp) \<and>
         rp ''return_to'' = Some (mapIndex p ''return_to'') \<and>
         rp ''response_nonce'' = Some nonce \<and>
         rp ''assoc_handle'' = Some (Handle assoc)"
    unfolding full
    by (intro exI [of _ ?rp] exI [of _ sg] conjI r v sg')
next
  assume "mapIndex p ''return_to'' \<noteq> [] \<and> getNonce L w = (Inr nonce, w1) \<and>
    getAssociation L H (mapIndex p ''assoc_handle'') nonce w1 = (Inr assoc, w2)"
  then show "login_id_res L H rg p resp w =
        respond L (indirect L (mapIndex p ''return_to''))
          (login_encode L p resp nonce assoc (encode_orders rg)) w2"
    by (simp add: login_id_res_def)
qed


theorem login_encode_signed_witness:
  "(case login_encode testLib
           [''return_to'' \<mapsto> ''https://rp/cb'', ''assoc_handle'' \<mapsto> ''h0'']
           \<lparr>ClaimedID = ''https://example.org/u1'', Identity = [], OPEndpoint = ''https://op.example/id'',
            Extensions = [\<lparr>ext_Namespace = ''urn:a'', Prefix = ''sig'', Params = [''x'' \<mapsto> ''1'']\<rparr>]\<rparr>
           ''T-n''
           \<lparr>Endpoint = [], Handle = ''h1'', Secret = ''k'', Type = ''HMAC-SHA256'', Expires = 7\<rparr>
           [[''x'']] of
      Inl err \<Rightarrow> False
    | Inr rp \<Rightarrow>
        rp ''ns'' = Some ''http://specs.openid.net/auth/2.0'' \<and> rp ''mode'' = Some ''id_res'' \<and>
        rp ''signed'' = Some ''op_endpoint,return_to,response_nonce,assoc_handle,claimed_id,ext0.x'' \<and>
        rp ''sig'' = Some (''2k/op_endpoint:https://op.example/id\<newline>return_to:https://rp/cb\<newline>'' @
                          ''response_nonce:T-n\<newline>assoc_handle:h1\<newline>'' @
                          ''claimed_id:https://example.org/u1\<newline>ext0.x:1\<newline>'') \<and>
        rp ''ns.ext0'' = Some ''urn:a'' \<and> rp ''ext0.x'' = Some ''1'' \<and>
        rp ''invalidate_handle'' = Some ''h0'')"
  using login_encode_signed [of
           "\<lparr>Endpoint = [], Handle = ''h1'', Secret = ''k'', Type = ''HMAC-SHA256'', Expires = 7\<rparr>"
           testLib
           "[''return_to'' \<mapsto> ''https://rp/cb'', ''assoc_handle'' \<mapsto> ''h0'']"
           "\<lparr>ClaimedID = ''https://example.org/u1'', Identity = [], OPEndpoint = ''https://op.example/id'',
            Extensions = [\<lparr>ext_Namespace = ''urn:a'', Prefix = ''sig'', Params = [''x'' \<mapsto> ''1'']\<rparr>]\<rparr>"
           "''T-n''" "[[''x'']]"]
  by (simp add: login_encode_def Let_def encodeExtensions_def encodeExtension_def
      encodeExtensions_prefix.simps Itoa.simps bannedPrefixes_def mapIndex_def sign_message
      hmacSHA1_def hmacSHA256_def Namespace_def testLib_def)

section \<open>The dispatcher and the namespace check\<close>

text \<open>
  C6 says that a request whose \<open>ns\<close> is not the protocol namespace gets a protocol
  error and that no action of a mode runs for it. The first switch of \<open>ServeHTTP\<close>
  sends the error and does not return, so the second switch still runs. Here a request
  with a wrong \<open>ns\<close> and the mode \<open>check_authentication\<close> gets the error response and
  then the answer \<open>is_valid: true\<close> of the verification, which has also deleted the
  association.
\<close>

theorem ServeHTTP_unknown_ns_runs_mode:
  "(case ServeHTTP testLib \<lparr>Login = None, Associations = None\<rparr>
          \<lparr>declare_order = [], prefixes_order = [], collect_order = [], encode_orders = []\<rparr>
          \<lparr>Method = ''GET'',
           Query = [''openid.ns'' \<mapsto> [''http://bogus''],
                    ''openid.mode'' \<mapsto> [''check_authentication''],
                    ''openid.assoc_handle'' \<mapsto> [''h1''],
                    ''openid.signed'' \<mapsto> [''mode''],
                    ''openid.sig'' \<mapsto> [''2k/mode:check_authentication\<newline>'']],
           PostForm = Map.empty\<rparr>
          \<lparr>dflt = [[] \<mapsto> [''h1'' \<mapsto>
                \<lparr>Endpoint = [], Handle = ''h1'', Secret = ''k'', Type = ''HMAC-SHA256'', Expires = 7\<rparr>]],
           plug = (), entropy = [], clock = (\<lambda>n. 0), ticks = 0, responses = []\<rparr> of
      Inl panic \<Rightarrow> False
    | Inr w' \<Rightarrow>
        (case responses w' of
           [Direct s1 f1, Direct s2 f2] \<Rightarrow>
             s1 = 400 \<and> f1 ''mode'' = Some ''error'' \<and>
             f1 ''error'' = Some (''unknown ns '' @ [CHR 0x22] @ ''http://bogus'' @ [CHR 0x22]) \<and>
             s2 = 200 \<and> f2 ''is_valid'' = Some ''true''
         | _ \<Rightarrow> False) \<and>
        MemoryAssociationStore_Get (dflt w') [] ''h1'' = Inr None)"
  by (simp add: ServeHTTP_def ServeHTTP_params_def ServeHTTP_ns_def ServeHTTP_mode_def ParseHTTP_def
      respond_def indirect_def direct_def makeError_def Error_def checkAuthentication_def
      store_Get_def store_Delete_def MemoryAssociationStore_Get_def MemoryAssociationStore_Delete_def
      mapIndex_def sign_message hmacSHA1_def hmacSHA256_def Namespace_def testLib_def)

end
